theory Spec2Isabelle
  imports Complex_Main "HOL-Library.Char_ord" "HOL-Library.List_Lexorder" "HOL-Library.Multiset"
    "HOL-Library.Log_Nat"
begin

text \<open>
  The filter-and-summarize pipeline of the telemarketing dashboard (app_7.py): the loader
  with its fallback, the categorical filter and the cache that its decorator puts in front
  of it, the age range query, the chain of filters, the proportion tables in float64 and
  the part of main that computes and shows them. DataFrames are modelled by value, and
  once more as objects in a store for the question of which object an operation changes.
\<close>

section \<open>Data model\<close>

text \<open>
  A cell of a DataFrame: a number (int64 and the finite float64 values are rationals),
  a string, or the missing value NaN. Equality of cells is the equality that
  \<^verbatim>\<open>Series.isin\<close> uses (NaN matches NaN).
\<close>

datatype cell = is_Num: Num rat | is_Str: Str string | is_NaN: NaN

text \<open>
  The exceptions the modelled code can raise. \<open>KeyboardInterrupt\<close> stands for the
  exceptions that derive from \<^verbatim>\<open>BaseException\<close> only, which a handler
  \<^verbatim>\<open>except Exception\<close> does not catch.
\<close>

datatype error =
    KeyError string
  | TypeError
  | UndefinedVariableError string
  | AttributeError string
  | UnboundLocalError string
  | ParserError string
  | ValueError string
  | KeyboardInterrupt

fun is_Exception :: "error \<Rightarrow> bool" where
  "is_Exception KeyboardInterrupt = False"
| "is_Exception _ = True"

type_synonym row = "cell list"

text \<open>
  A DataFrame: the column names, and the rows in order, each with its index label.
  The cells of a row stand in the order of \<open>columns\<close>.
\<close>

record dataframe =
  columns :: "string list"
  body :: "(nat \<times> row) list"

definition index :: "dataframe \<Rightarrow> nat list" where
  "index df = map fst (body df)"

definition rows :: "dataframe \<Rightarrow> row list" where
  "rows df = map snd (body df)"

text \<open>The cell of a row under a column; a row shorter than the header reads as NaN there.\<close>

definition get_cell :: "string list \<Rightarrow> row \<Rightarrow> string \<Rightarrow> cell" where
  "get_cell cols r c = (case map_of (zip cols r) c of Some v \<Rightarrow> v | None \<Rightarrow> NaN)"

text \<open>\<^verbatim>\<open>r.pipe(f)\<close> on a result that may already be an exception.\<close>

definition pipe :: "error + 'a \<Rightarrow> ('a \<Rightarrow> error + 'b) \<Rightarrow> error + 'b" where
  "pipe r f = (case r of Inl e \<Rightarrow> Inl e | Inr d \<Rightarrow> f d)"

text \<open>The cells of a column, from the first row to the last.\<close>

definition column_cells :: "dataframe \<Rightarrow> string \<Rightarrow> cell list" where
  "column_cells df col = map (\<lambda>r. get_cell (columns df) r col) (rows df)"

section \<open>The categorical filter\<close>

text \<open>\<^verbatim>\<open>df[col].isin(values)\<close>: the boolean mask, or KeyError when the column is absent.\<close>

definition isin :: "dataframe \<Rightarrow> string \<Rightarrow> cell list \<Rightarrow> error + bool list" where
  "isin df col vals =
     (if col \<in> set (columns df)
      then Inr (map (\<lambda>(i, r). get_cell (columns df) r col \<in> set vals) (body df))
      else Inl (KeyError col))"

text \<open>\<^verbatim>\<open>df[mask]\<close>: the rows under a true mask entry, labels kept.\<close>

definition select_rows :: "dataframe \<Rightarrow> bool list \<Rightarrow> dataframe" where
  "select_rows df msk = df\<lparr>body := map fst (filter snd (zip (body df) msk))\<rparr>"

text \<open>\<^verbatim>\<open>df.reset_index(drop=True)\<close>: the labels become 0, 1, 2, ...\<close>

definition reset_index :: "dataframe \<Rightarrow> dataframe" where
  "reset_index df = df\<lparr>body := zip [0..<length (body df)] (map snd (body df))\<rparr>"

text \<open>
  The function of lines 26 to 30, as the decorator of line 25 receives it:
  \<^verbatim>\<open>
  def multiselect_filter(df, col, selecionados):
      if 'all' in selecionados:
          return df
      else:
          return df[df[col].isin(selecionados)].reset_index(drop=True)
  \<close>
  It runs when the cache has no entry for the call. What main calls under this name is the
  decorated function, \<open>multiselect_filter_cached\<close> below.
\<close>

definition multiselect_filter :: "dataframe \<Rightarrow> string \<Rightarrow> cell list \<Rightarrow> error + dataframe" where
  "multiselect_filter df col selecionados =
     (if Str ''all'' \<in> set selecionados then Inr df
      else (case isin df col selecionados of
              Inl e \<Rightarrow> Inl e
            | Inr msk \<Rightarrow> Inr (reset_index (select_rows df msk))))"

section \<open>The cache in front of the categorical filter\<close>

text \<open>
  Line 25 decorates multiselect_filter with \<^verbatim>\<open>@st.cache_data\<close>: a call first computes
  a key from its arguments and returns the stored result when the cache holds one under
  that key; otherwise the function runs, and its result is stored unless it raises. The
  cache outlives a run of main.

  The key of a DataFrame is made of its shape, the names and dtypes of its columns, and
  its rows with their index labels; of a DataFrame of 50000 rows or more only 10000 rows
  enter the key, those that \<^verbatim>\<open>df.sample(n=10000, random_state=0)\<close> picks. The positions
  that pandas picks for a given number of rows are a parameter here, \<open>sample\<close>. Distinct
  key material is taken to give distinct keys.
\<close>

definition PANDAS_ROWS_LARGE :: nat where
  "PANDAS_ROWS_LARGE = 50000"

definition PANDAS_SAMPLE_SIZE :: nat where
  "PANDAS_SAMPLE_SIZE = 10000"

datatype dtype = Number | Object

definition dtypes :: "dataframe \<Rightarrow> (string \<times> dtype) list" where
  "dtypes df =
     map (\<lambda>c. (c, if list_ex is_Str (column_cells df c) then Object else Number)) (columns df)"

type_synonym frame_key = "(nat \<times> nat) \<times> (string \<times> dtype) list \<times> (nat \<times> row) list"

definition sample_rows :: "(nat \<Rightarrow> nat list) \<Rightarrow> (nat \<times> row) list \<Rightarrow> (nat \<times> row) list" where
  "sample_rows sample b =
     map (\<lambda>i. b ! i) (filter (\<lambda>i. i < length b) (take PANDAS_SAMPLE_SIZE (sample (length b))))"

definition hash_df :: "(nat \<Rightarrow> nat list) \<Rightarrow> dataframe \<Rightarrow> frame_key" where
  "hash_df sample df =
     ((length (body df), length (columns df)), dtypes df,
      (if PANDAS_ROWS_LARGE \<le> length (body df) then sample_rows sample (body df) else body df))"

text \<open>A call is keyed by its three arguments; the cache lists the stored results, newest first.\<close>

type_synonym call_key = "frame_key \<times> string \<times> cell list"

type_synonym cache = "(call_key \<times> dataframe) list"

definition cache_data ::
  "call_key \<Rightarrow> error + dataframe \<Rightarrow> cache \<Rightarrow> (error + dataframe) \<times> cache" where
  "cache_data k result c =
     (case map_of c k of
        Some stored \<Rightarrow> (Inr stored, c)
      | None \<Rightarrow> (case result of Inl e \<Rightarrow> (Inl e, c) | Inr r \<Rightarrow> (Inr r, (k, r) # c)))"

text \<open>The decorated function: what the name multiselect_filter stands for when main calls it.\<close>

definition multiselect_filter_cached ::
  "(nat \<Rightarrow> nat list) \<Rightarrow> dataframe \<Rightarrow> string \<Rightarrow> cell list \<Rightarrow> cache
     \<Rightarrow> (error + dataframe) \<times> cache" where
  "multiselect_filter_cached sample df col selecionados c =
     cache_data (hash_df sample df, col, selecionados) (multiselect_filter df col selecionados) c"

text \<open>
  A cache all of whose entries were stored by calls of the function: each result is what
  the function returns for some DataFrame with the key of the entry.
\<close>

definition cache_ok :: "(nat \<Rightarrow> nat list) \<Rightarrow> cache \<Rightarrow> bool" where
  "cache_ok sample c =
     (\<forall>fk col sel r. ((fk, col, sel), r) \<in> set c \<longrightarrow>
        (\<exists>d. hash_df sample d = fk \<and> multiselect_filter d col sel = Inr r))"

section \<open>The age range filter\<close>

text \<open>
  The comparisons of \<^verbatim>\<open>age >= @idades[0]\<close> and \<^verbatim>\<open>age <= @idades[1]\<close> on one
  cell: false on a missing value, TypeError on a string (an object column against an int).
\<close>

fun cell_ge :: "cell \<Rightarrow> int \<Rightarrow> error + bool" where
  "cell_ge (Num a) v = Inr (of_int v \<le> a)"
| "cell_ge NaN v = Inr False"
| "cell_ge (Str s) v = Inl TypeError"

fun cell_le :: "cell \<Rightarrow> int \<Rightarrow> error + bool" where
  "cell_le (Num a) v = Inr (a \<le> of_int v)"
| "cell_le NaN v = Inr False"
| "cell_le (Str s) v = Inl TypeError"

text \<open>An elementwise operation on a column stops at the first cell that raises.\<close>

fun collect :: "(error + 'a) list \<Rightarrow> error + 'a list" where
  "collect [] = Inr []"
| "collect (x # xs) =
     (case x of
        Inl e \<Rightarrow> Inl e
      | Inr v \<Rightarrow> (case collect xs of Inl e \<Rightarrow> Inl e | Inr vs \<Rightarrow> Inr (v # vs)))"

text \<open>
  \<^verbatim>\<open>bank.query("age >= @idades[0] and age <= @idades[1]")\<close>: the name \<open>age\<close> must
  resolve to a column; the two masks are computed and combined; the rows under the mask
  are selected with their labels (no reset of the index).
\<close>

definition query_age :: "dataframe \<Rightarrow> int \<Rightarrow> int \<Rightarrow> error + dataframe" where
  "query_age df lo hi =
     (if ''age'' \<notin> set (columns df) then Inl (UndefinedVariableError ''age'')
      else (case collect (map (\<lambda>c. cell_ge c lo) (column_cells df ''age'')) of
              Inl e \<Rightarrow> Inl e
            | Inr ge \<Rightarrow>
                (case collect (map (\<lambda>c. cell_le c hi) (column_cells df ''age'')) of
                   Inl e \<Rightarrow> Inl e
                 | Inr le \<Rightarrow> Inr (select_rows df (map (\<lambda>(a, b). a \<and> b) (zip ge le))))))"

section \<open>The filter pipeline\<close>

text \<open>The Filter Selection: the slider's pair and the eight multiselect values.\<close>

record filter_selection =
  idades :: "int \<times> int"
  jobs_selected :: "cell list"
  marital_selected :: "cell list"
  default_selected :: "cell list"
  housing_selected :: "cell list"
  loan_selected :: "cell list"
  contact_selected :: "cell list"
  month_selected :: "cell list"
  day_of_week_selected :: "cell list"

text \<open>
  \<^verbatim>\<open>
  bank = (
      bank.query("age >= @idades[0] and age <= @idades[1]")
      .pipe(multiselect_filter, 'job', jobs_selected)
      .pipe(multiselect_filter, 'marital', marital_selected)
      .pipe(multiselect_filter, 'default', default_selected)
      .pipe(multiselect_filter, 'housing', housing_selected)
      .pipe(multiselect_filter, 'loan', loan_selected)
      .pipe(multiselect_filter, 'contact', contact_selected)
      .pipe(multiselect_filter, 'month', month_selected)
      .pipe(multiselect_filter, 'day_of_week', day_of_week_selected)
  )
  \<close>
\<close>

text \<open>
  First with the function of lines 26 to 30 at every step, which is the pipeline when
  every call misses the cache; then as main runs it, each step through the cache.
\<close>

definition apply_filters :: "dataframe \<Rightarrow> filter_selection \<Rightarrow> error + dataframe" where
  "apply_filters bank fs =
     pipe (pipe (pipe (pipe (pipe (pipe (pipe (pipe
       (query_age bank (fst (idades fs)) (snd (idades fs)))
       (\<lambda>d. multiselect_filter d ''job'' (jobs_selected fs)))
       (\<lambda>d. multiselect_filter d ''marital'' (marital_selected fs)))
       (\<lambda>d. multiselect_filter d ''default'' (default_selected fs)))
       (\<lambda>d. multiselect_filter d ''housing'' (housing_selected fs)))
       (\<lambda>d. multiselect_filter d ''loan'' (loan_selected fs)))
       (\<lambda>d. multiselect_filter d ''contact'' (contact_selected fs)))
       (\<lambda>d. multiselect_filter d ''month'' (month_selected fs)))
       (\<lambda>d. multiselect_filter d ''day_of_week'' (day_of_week_selected fs))"

definition pipe_cached ::
  "(error + dataframe) \<times> cache \<Rightarrow> (dataframe \<Rightarrow> cache \<Rightarrow> (error + dataframe) \<times> cache)
     \<Rightarrow> (error + dataframe) \<times> cache" where
  "pipe_cached r f = (case r of (Inl e, c) \<Rightarrow> (Inl e, c) | (Inr d, c) \<Rightarrow> f d c)"

definition apply_filters_cached ::
  "(nat \<Rightarrow> nat list) \<Rightarrow> dataframe \<Rightarrow> filter_selection \<Rightarrow> cache \<Rightarrow> (error + dataframe) \<times> cache" where
  "apply_filters_cached sample bank fs c =
     pipe_cached (pipe_cached (pipe_cached (pipe_cached (pipe_cached (pipe_cached (pipe_cached
     (pipe_cached
       (query_age bank (fst (idades fs)) (snd (idades fs)), c)
       (\<lambda>d. multiselect_filter_cached sample d ''job'' (jobs_selected fs)))
       (\<lambda>d. multiselect_filter_cached sample d ''marital'' (marital_selected fs)))
       (\<lambda>d. multiselect_filter_cached sample d ''default'' (default_selected fs)))
       (\<lambda>d. multiselect_filter_cached sample d ''housing'' (housing_selected fs)))
       (\<lambda>d. multiselect_filter_cached sample d ''loan'' (loan_selected fs)))
       (\<lambda>d. multiselect_filter_cached sample d ''contact'' (contact_selected fs)))
       (\<lambda>d. multiselect_filter_cached sample d ''month'' (month_selected fs)))
       (\<lambda>d. multiselect_filter_cached sample d ''day_of_week'' (day_of_week_selected fs))"

text \<open>
  The eight categorical steps of the pipeline, column and selection, in the order of the
  source, and a chain of \<^verbatim>\<open>.pipe(multiselect_filter, col, sel)\<close> over any list of steps,
  without and with the cache.
\<close>

definition categorical_steps :: "filter_selection \<Rightarrow> (string \<times> cell list) list" where
  "categorical_steps fs =
     [(''job'', jobs_selected fs), (''marital'', marital_selected fs),
      (''default'', default_selected fs), (''housing'', housing_selected fs),
      (''loan'', loan_selected fs), (''contact'', contact_selected fs),
      (''month'', month_selected fs), (''day_of_week'', day_of_week_selected fs)]"

definition filter_chain :: "(string \<times> cell list) list \<Rightarrow> error + dataframe \<Rightarrow> error + dataframe" where
  "filter_chain steps r = fold (\<lambda>(c, s) acc. pipe acc (\<lambda>d. multiselect_filter d c s)) steps r"

definition filter_chain_cached ::
  "(nat \<Rightarrow> nat list) \<Rightarrow> (string \<times> cell list) list \<Rightarrow> (error + dataframe) \<times> cache
     \<Rightarrow> (error + dataframe) \<times> cache" where
  "filter_chain_cached sample steps r =
     fold (\<lambda>(col, s) acc. pipe_cached acc (\<lambda>d. multiselect_filter_cached sample d col s)) steps r"

text \<open>
  Predicates on rows and on lists of steps, used to state what a chain and the pipeline
  return: the age lies in the slider's range; the row passes every step; no step filters;
  every step that filters names a column that exists.
\<close>

fun age_between :: "int \<Rightarrow> int \<Rightarrow> cell \<Rightarrow> bool" where
  "age_between lo hi (Num a) = (of_int lo \<le> a \<and> a \<le> of_int hi)"
| "age_between lo hi _ = False"



definition resolvable :: "string list \<Rightarrow> (string \<times> cell list) list \<Rightarrow> bool" where
  "resolvable cols steps = list_all (\<lambda>(c, s). Str ''all'' \<in> set s \<or> c \<in> set cols) steps"



section \<open>Arithmetic in float64\<close>

text \<open>
  The correctly rounded result of an operation on float64 values: the nearest number with
  a significand of 53 bits, a tie going to the even significand. The exponent is not
  bounded here; the quotients and products of the proportion tables lie between
  \<open>2\<^sup>-\<^sup>6\<^sup>3\<close> and 100, inside the range of float64.
\<close>

definition round_half_even :: "rat \<Rightarrow> int" where
  "round_half_even x =
     (let f = \<lfloor>x\<rfloor>; d = x - of_int f
      in if d < 1 / 2 then f else if 1 / 2 < d then f + 1 else if even f then f else f + 1)"

text \<open>The exponent e of a positive x: \<open>2\<^sup>e \<le> x < 2\<^sup>e\<^sup>+\<^sup>1\<close>.\<close>

definition ilog2 :: "rat \<Rightarrow> int" where
  "ilog2 x =
     (let (p, q) = quotient_of x; k = bitlen p - bitlen q
      in if 2 powi k \<le> x then k else k - 1)"

definition f64 :: "rat \<Rightarrow> rat" where
  "f64 x =
     (if x = 0 then 0
      else (let s = 2 powi (ilog2 \<bar>x\<bar> - 52)
            in sgn x * of_int (round_half_even (\<bar>x\<bar> / s)) * s))"

section \<open>The proportion summarizer\<close>

text \<open>
  A proportion table: the index (the target values) and the one column of float64 numbers,
  each held as the rational it is.
\<close>

type_synonym table = "(cell \<times> rat) list"

definition first_seen :: "cell list \<Rightarrow> cell list" where
  "first_seen vs = rev (remdups (rev vs))"

text \<open>
  \<^verbatim>\<open>Series.value_counts()\<close>: missing values are dropped, each distinct value gets its
  count, the largest count comes first.
\<close>

definition value_counts :: "cell list \<Rightarrow> (cell \<times> nat) list" where
  "value_counts cs =
     (let vs = filter (\<lambda>c. \<not> is_NaN c) cs
      in sort_key (\<lambda>(k, n). - int n) (map (\<lambda>k. (k, count_list vs k)) (first_seen vs)))"

text \<open>
  \<^verbatim>\<open>normalize=True\<close>: each count over the sum of the counts, a division of two int64
  values in float64. No division takes place on an empty list of counts.
\<close>

definition normalize :: "(cell \<times> nat) list \<Rightarrow> table" where
  "normalize counts =
     map (\<lambda>(k, n). (k, f64 (of_nat n / of_nat (sum_list (map snd counts))))) counts"

text \<open>
  \<^verbatim>\<open>df.y.value_counts(normalize=True).to_frame() * 100\<close>: the attribute access raises
  AttributeError when the DataFrame has no column y; the product is a float64 product.
\<close>

definition value_counts_perc :: "dataframe \<Rightarrow> error + table" where
  "value_counts_perc df =
     (if ''y'' \<in> set (columns df)
      then Inr (map (\<lambda>(k, p). (k, f64 (p * 100))) (normalize (value_counts (column_cells df ''y''))))
      else Inl (AttributeError ''y''))"

fun str_of :: "cell \<Rightarrow> string" where
  "str_of (Str s) = s"
| "str_of _ = []"

fun num_of :: "cell \<Rightarrow> rat" where
  "num_of (Num a) = a"
| "num_of _ = 0"

text \<open>
  \<^verbatim>\<open>sort_index()\<close> on a table whose index holds no missing value: strings are ordered
  as Python orders them (by code point, lexicographically), numbers by value; comparing
  a string with a number raises TypeError.
\<close>

definition sort_index :: "table \<Rightarrow> error + table" where
  "sort_index t =
     (if list_all (\<lambda>(k, p). is_Str k) t then Inr (sort_key (\<lambda>(k, p). str_of k) t)
      else if list_all (\<lambda>(k, p). is_Num k) t then Inr (sort_key (\<lambda>(k, p). num_of k) t)
      else Inl TypeError)"

text \<open>The first two statements of either proportion computation, one after the other.\<close>

definition target_perc :: "dataframe \<Rightarrow> error + table" where
  "target_perc df = pipe (value_counts_perc df) sort_index"

fun cell_less :: "cell \<Rightarrow> cell \<Rightarrow> bool" where
  "cell_less (Num a) (Num b) = (a < b)"
| "cell_less (Str s) (Str t) = (s < t)"
| "cell_less _ _ = False"

section \<open>The data loader\<close>

type_synonym bytes = string

datatype parse_call = Read_csv char | Read_excel

text \<open>
  \<^verbatim>\<open>
  def load_data(file_data):
      try:
          return pd.read_csv(file_data, sep=';')
      except Exception:
          return pd.read_excel(file_data)
  \<close>
  The two parsers are the library's and are parameters here. The second component of the
  result lists the parser calls made, in order.
\<close>

definition load_data ::
  "(bytes \<Rightarrow> char \<Rightarrow> error + dataframe) \<Rightarrow> (bytes \<Rightarrow> error + dataframe) \<Rightarrow> bytes
     \<Rightarrow> (error + dataframe) \<times> parse_call list" where
  "load_data read_csv read_excel file_data =
     (case read_csv file_data CHR '';'' of
        Inr df \<Rightarrow> (Inr df, [Read_csv CHR '';''])
      | Inl e \<Rightarrow>
          (if is_Exception e
           then (read_excel file_data, [Read_csv CHR '';'', Read_excel])
           else (Inl e, [Read_csv CHR '';''])))"

section \<open>The proportion section of main\<close>

text \<open>
  What main shows: an error box, a table in the left (1) or right (2) column, a download
  button with its file name and the table it encodes, and the download button of the
  filtered DataFrame with its file name (its bytes come from to_excel, which is not
  modelled).
\<close>

datatype ui_event =
    St_error string
  | Write_table nat table
  | Download_table string table
  | Download_filtered string

text \<open>
  The two local variables of main that hold proportion tables (None: not bound yet) and
  the events shown so far. A step returns the exception it raises, if any, and the state.
\<close>

record run_state =
  bank_raw_target_perc :: "table option"
  bank_target_perc :: "table option"
  ui :: "ui_event list"

definition emit :: "ui_event \<Rightarrow> run_state \<Rightarrow> run_state" where
  "emit ev st = st\<lparr>ui := ui st @ [ev]\<rparr>"

definition seq ::
  "(run_state \<Rightarrow> error option \<times> run_state) \<Rightarrow> (run_state \<Rightarrow> error option \<times> run_state)
     \<Rightarrow> run_state \<Rightarrow> error option \<times> run_state" where
  "seq f g st = (case f st of (None, st') \<Rightarrow> g st' | (Some e, st') \<Rightarrow> (Some e, st'))"

text \<open>
  \<^verbatim>\<open>
  bank_raw_target_perc = bank_raw.y.value_counts(normalize=True).to_frame() * 100
  bank_raw_target_perc = bank_raw_target_perc.sort_index()
  bank_raw_target_perc.columns = ['y']
  \<close>
  No handler surrounds these statements.
\<close>

definition raw_proportion :: "dataframe \<Rightarrow> run_state \<Rightarrow> error option \<times> run_state" where
  "raw_proportion bank_raw st =
     (case value_counts_perc bank_raw of
        Inl e \<Rightarrow> (Some e, st)
      | Inr t \<Rightarrow>
          (let st1 = st\<lparr>bank_raw_target_perc := Some t\<rparr>
           in (case sort_index t of
                 Inl e \<Rightarrow> (Some e, st1)
               | Inr t' \<Rightarrow> (None, st1\<lparr>bank_raw_target_perc := Some t'\<rparr>))))"

text \<open>
  \<^verbatim>\<open>
  try:
      bank_target_perc = bank.y.value_counts(normalize=True).to_frame() * 100
      bank_target_perc = bank_target_perc.sort_index()
      bank_target_perc.columns = ['y']
  except Exception:
      st.error('Erro no filtro dos dados.')
  \<close>
\<close>

definition except_Exception :: "error \<Rightarrow> run_state \<Rightarrow> error option \<times> run_state" where
  "except_Exception e st =
     (if is_Exception e then (None, emit (St_error ''Erro no filtro dos dados.'') st)
      else (Some e, st))"

definition filtered_proportion :: "dataframe \<Rightarrow> run_state \<Rightarrow> error option \<times> run_state" where
  "filtered_proportion bank st =
     (case value_counts_perc bank of
        Inl e \<Rightarrow> except_Exception e st
      | Inr t \<Rightarrow>
          (let st1 = st\<lparr>bank_target_perc := Some t\<rparr>
           in (case sort_index t of
                 Inl e \<Rightarrow> except_Exception e st1
               | Inr t' \<Rightarrow> (None, st1\<lparr>bank_target_perc := Some t'\<rparr>))))"

text \<open>
  \<^verbatim>\<open>
  df_xlsx = to_excel(bank_raw_target_perc)
  col1.write(bank_raw_target_perc)
  col1.download_button(label=..., data=df_xlsx, file_name='bank_raw_y.xlsx')

  df_xlsx = to_excel(bank_target_perc)
  col2.write(bank_target_perc)
  col2.download_button(label=..., data=df_xlsx, file_name='bank_y.xlsx')
  \<close>
  Reading a local variable that no statement has bound raises UnboundLocalError.
\<close>

definition show_raw :: "run_state \<Rightarrow> error option \<times> run_state" where
  "show_raw st =
     (case bank_raw_target_perc st of
        None \<Rightarrow> (Some (UnboundLocalError ''bank_raw_target_perc''), st)
      | Some t \<Rightarrow> (None, emit (Download_table ''bank_raw_y.xlsx'' t) (emit (Write_table 1 t) st)))"

definition show_filtered :: "run_state \<Rightarrow> error option \<times> run_state" where
  "show_filtered st =
     (case bank_target_perc st of
        None \<Rightarrow> (Some (UnboundLocalError ''bank_target_perc''), st)
      | Some t \<Rightarrow> (None, emit (Download_table ''bank_y.xlsx'' t) (emit (Write_table 2 t) st)))"

definition proportion_section ::
  "dataframe \<Rightarrow> dataframe \<Rightarrow> run_state \<Rightarrow> error option \<times> run_state" where
  "proportion_section bank_raw bank =
     seq (raw_proportion bank_raw) (seq (filtered_proportion bank) (seq show_raw show_filtered))"

text \<open>
  One run of main from the filters on, for a loaded DataFrame, a Filter Selection and the
  cache that earlier runs have left. Every run starts with both table variables unbound
  and nothing shown; the cache is handed on to the next run.
\<close>

definition initial_state :: run_state where
  "initial_state = \<lparr>bank_raw_target_perc = None, bank_target_perc = None, ui = []\<rparr>"

definition main_run ::
  "(nat \<Rightarrow> nat list) \<Rightarrow> dataframe \<Rightarrow> filter_selection \<Rightarrow> cache
     \<Rightarrow> (error option \<times> run_state) \<times> cache" where
  "main_run sample bank_raw fs c =
     (case apply_filters_cached sample bank_raw fs c of
        (Inl e, c') \<Rightarrow> ((Some e, initial_state), c')
      | (Inr bank, c') \<Rightarrow>
          (proportion_section bank_raw bank
             (emit (Download_filtered ''bank_filtered.xlsx'') initial_state), c'))"

section \<open>The pipeline over objects in a store\<close>

text \<open>
  DataFrames are objects: a variable holds a reference, and two variables may hold the
  same one. The store maps every reference below \<open>next_ref\<close> to the object's value.
\<close>

type_synonym ref = nat

record store =
  objs :: "ref \<Rightarrow> dataframe"
  next_ref :: ref

definition alloc :: "dataframe \<Rightarrow> store \<Rightarrow> ref \<times> store" where
  "alloc d s = (next_ref s, \<lparr>objs = (objs s)(next_ref s := d), next_ref = Suc (next_ref s)\<rparr>)"

text \<open>An operation that returns a new DataFrame or raises.\<close>

definition new_object :: "error + dataframe \<Rightarrow> store \<Rightarrow> (error + ref) \<times> store" where
  "new_object r s =
     (case r of Inl e \<Rightarrow> (Inl e, s) | Inr d \<Rightarrow> (let (a, s') = alloc d s in (Inr a, s')))"

text \<open>\<^verbatim>\<open>bank_raw.copy()\<close>\<close>

definition copy_ref :: "ref \<Rightarrow> store \<Rightarrow> ref \<times> store" where
  "copy_ref a s = alloc (objs s a) s"

definition query_age_ref :: "ref \<Rightarrow> int \<Rightarrow> int \<Rightarrow> store \<Rightarrow> (error + ref) \<times> store" where
  "query_age_ref a lo hi s = new_object (query_age (objs s a) lo hi) s"

text \<open>
  multiselect_filter on references: with 'all' the argument itself is returned (an alias);
  otherwise \<^verbatim>\<open>df[...]\<close> and \<^verbatim>\<open>reset_index(drop=True)\<close> each return a new object.
\<close>

definition multiselect_filter_ref ::
  "ref \<Rightarrow> string \<Rightarrow> cell list \<Rightarrow> store \<Rightarrow> (error + ref) \<times> store" where
  "multiselect_filter_ref df col selecionados s =
     (if Str ''all'' \<in> set selecionados then (Inr df, s)
      else (case isin (objs s df) col selecionados of
              Inl e \<Rightarrow> (Inl e, s)
            | Inr msk \<Rightarrow>
                (let (a, s1) = alloc (select_rows (objs s df) msk) s;
                     (b, s2) = alloc (reset_index (objs s1 a)) s1
                 in (Inr b, s2))))"

definition pipe_ref ::
  "(error + ref) \<times> store \<Rightarrow> (ref \<Rightarrow> store \<Rightarrow> (error + ref) \<times> store) \<Rightarrow> (error + ref) \<times> store" where
  "pipe_ref r f = (case r of (Inl e, s) \<Rightarrow> (Inl e, s) | (Inr a, s) \<Rightarrow> f a s)"

text \<open>
  \<^verbatim>\<open>bank = bank_raw.copy()\<close> and the pipeline of main, on references.
\<close>

definition run_filters :: "ref \<Rightarrow> filter_selection \<Rightarrow> store \<Rightarrow> (error + ref) \<times> store" where
  "run_filters bank_raw fs s =
     (let (bank, s0) = copy_ref bank_raw s in
      pipe_ref (pipe_ref (pipe_ref (pipe_ref (pipe_ref (pipe_ref (pipe_ref (pipe_ref
        (query_age_ref bank (fst (idades fs)) (snd (idades fs)) s0)
        (\<lambda>d. multiselect_filter_ref d ''job'' (jobs_selected fs)))
        (\<lambda>d. multiselect_filter_ref d ''marital'' (marital_selected fs)))
        (\<lambda>d. multiselect_filter_ref d ''default'' (default_selected fs)))
        (\<lambda>d. multiselect_filter_ref d ''housing'' (housing_selected fs)))
        (\<lambda>d. multiselect_filter_ref d ''loan'' (loan_selected fs)))
        (\<lambda>d. multiselect_filter_ref d ''contact'' (contact_selected fs)))
        (\<lambda>d. multiselect_filter_ref d ''month'' (month_selected fs)))
        (\<lambda>d. multiselect_filter_ref d ''day_of_week'' (day_of_week_selected fs)))"

definition filter_chain_ref ::
  "(string \<times> cell list) list \<Rightarrow> (error + ref) \<times> store \<Rightarrow> (error + ref) \<times> store" where
  "filter_chain_ref steps r =
     fold (\<lambda>(c, sel) acc. pipe_ref acc (\<lambda>d. multiselect_filter_ref d c sel)) steps r"

text \<open>A store extends another: nothing allocated before has changed.\<close>

definition extends :: "store \<Rightarrow> store \<Rightarrow> bool" where
  "extends s s' = (next_ref s \<le> next_ref s' \<and> (\<forall>a<next_ref s. objs s' a = objs s a))"

text \<open>
  A result on references follows a result on values: the store extends the first store,
  the reference returned holds the value returned, and it is a reference from \<open>n0\<close> on.
\<close>

definition tracks :: "ref \<Rightarrow> store \<Rightarrow> error + dataframe \<Rightarrow> (error + ref) \<times> store \<Rightarrow> bool" where
  "tracks n0 s0 v r =
     (case r of (x, s) \<Rightarrow>
        extends s0 s \<and> map_sum id (objs s) x = v
        \<and> (case x of Inl e \<Rightarrow> True | Inr b \<Rightarrow> n0 \<le> b \<and> b < next_ref s))"

section \<open>Example data\<close>

definition example_df :: dataframe where
  "example_df = \<lparr>columns = [''age'', ''job'', ''marital'', ''default'', ''housing'', ''loan'',
       ''contact'', ''month'', ''day_of_week'', ''y''],
     body = [(0, [Num 25, Str ''admin'', Str ''married'', Str ''no'', Str ''yes'', Str ''no'',
                  Str ''cellular'', Str ''may'', Str ''mon'', Str ''no'']),
             (1, [Num 30, Str ''technician'', Str ''single'', Str ''no'', Str ''no'', Str ''no'',
                  Str ''telephone'', Str ''may'', Str ''tue'', Str ''yes'']),
             (2, [Num 35, Str ''admin'', Str ''single'', Str ''no'', Str ''yes'', Str ''yes'',
                  Str ''cellular'', Str ''jun'', Str ''mon'', Str ''no'']),
             (3, [Num 40, Str ''admin'', Str ''married'', Str ''no'', Str ''no'', Str ''no'',
                  Str ''cellular'', Str ''jun'', Str ''wed'', Str ''no''])]\<rparr>"

definition select_all :: filter_selection where
  "select_all = \<lparr>idades = (25, 40),
     jobs_selected = [Str ''all''], marital_selected = [Str ''all''],
     default_selected = [Str ''all''], housing_selected = [Str ''all''],
     loan_selected = [Str ''all''], contact_selected = [Str ''all''],
     month_selected = [Str ''all''], day_of_week_selected = [Str ''all'']\<rparr>"


text \<open>Two stand-ins for the library's parsers, each accepting one input.\<close>

definition toy_frame :: dataframe where
  "toy_frame = \<lparr>columns = [''age'', ''y''], body = [(0, [Num 25, Str ''no''])]\<rparr>"

definition toy_read_csv :: "bytes \<Rightarrow> char \<Rightarrow> error + dataframe" where
  "toy_read_csv b sep =
     (if b = ''age;y'' @ [CHR 0x0A] @ ''25;no'' \<and> sep = CHR '';'' then Inr toy_frame
      else Inl (ParserError ''Error tokenizing data''))"

definition toy_read_excel :: "bytes \<Rightarrow> error + dataframe" where
  "toy_read_excel b =
     (if b = ''PK-workbook'' then Inr toy_frame
      else Inl (ValueError ''Excel file format cannot be determined''))"

text \<open>A DataFrame without the target column, one with targets of two kinds, the ten targets
  of the scenario (3 yes, 7 no), three targets that differ, and a store that holds the example at reference 0.\<close>

definition example_no_y :: dataframe where
  "example_no_y = \<lparr>columns = [''age'', ''job'', ''marital'', ''default'', ''housing'', ''loan'',
       ''contact'', ''month'', ''day_of_week''],
     body = [(0, [Num 25, Str ''admin'', Str ''married'', Str ''no'', Str ''yes'', Str ''no'',
                  Str ''cellular'', Str ''may'', Str ''mon'']),
             (1, [Num 30, Str ''technician'', Str ''single'', Str ''no'', Str ''no'', Str ''no'',
                  Str ''telephone'', Str ''may'', Str ''tue''])]\<rparr>"

definition mixed_targets :: dataframe where
  "mixed_targets = \<lparr>columns = [''y''], body = [(0, [Str ''yes'']), (1, [Num 1])]\<rparr>"

definition ten_targets :: dataframe where
  "ten_targets = \<lparr>columns = [''y''],
     body = [(0, [Str ''no'']), (1, [Str ''yes'']), (2, [Str ''no'']), (3, [Str ''no'']),
             (4, [Str ''yes'']), (5, [Str ''no'']), (6, [Str ''no'']), (7, [Str ''yes'']),
             (8, [Str ''no'']), (9, [Str ''no''])]\<rparr>"

definition three_targets :: dataframe where
  "three_targets = \<lparr>columns = [''y''], body = [(0, [Str ''a'']), (1, [Str ''b'']), (2, [Str ''c''])]\<rparr>"

definition one_object :: store where
  "one_object = \<lparr>objs = (\<lambda>a. example_df), next_ref = 1\<rparr>"

text \<open>
  DataFrames of 50000 rows: the same row throughout, but for the last one; the frame
  that a filter leaves when no row or only that last row passes; and the selections used
  with them. \<open>first_rows\<close> stands in for the positions that pandas samples: the first 10000.
\<close>

definition bank_columns :: "string list" where
  "bank_columns = [''age'', ''job'', ''marital'', ''default'', ''housing'', ''loan'',
     ''contact'', ''month'', ''day_of_week'', ''y'']"

definition usual_row :: row where
  "usual_row = [Num 30, Str ''admin'', Str ''married'', Str ''no'', Str ''yes'', Str ''no'',
     Str ''cellular'', Str ''may'', Str ''mon'', Str ''no'']"

definition other_row :: row where
  "other_row = [Num 30, Str ''technician'', Str ''married'', Str ''no'', Str ''yes'', Str ''no'',
     Str ''cellular'', Str ''jun'', Str ''mon'', Str ''no'']"


definition big_frame :: "row \<Rightarrow> dataframe" where
  "big_frame last_row =
     \<lparr>columns = bank_columns,
      body = zip [0..<PANDAS_ROWS_LARGE] (replicate (PANDAS_ROWS_LARGE - 1) usual_row @ [last_row])\<rparr>"


definition no_rows :: dataframe where
  "no_rows = \<lparr>columns = bank_columns, body = []\<rparr>"

definition one_row :: dataframe where
  "one_row = \<lparr>columns = bank_columns, body = [(0, other_row)]\<rparr>"






section \<open>Basic facts\<close>

lemma pipe_Inl [simp]: "pipe (Inl e) f = Inl e"
  by (simp add: pipe_def)

lemma pipe_Inr [simp]: "pipe (Inr d) f = f d"
  by (simp add: pipe_def)

lemma select_rows_map:
  "select_rows df (map P (body df)) = df\<lparr>body := filter P (body df)\<rparr>"
proof -
  have "map fst (filter snd (zip xs (map P xs))) = filter P xs" for xs :: "(nat \<times> row) list"
    by (induction xs) auto
  then show ?thesis by (simp add: select_rows_def)
qed

lemma rows_reset_index [simp]: "rows (reset_index df) = rows df"
  by (simp add: rows_def reset_index_def)

lemma index_reset_index [simp]: "index (reset_index df) = [0..<length (body df)]"
  by (simp add: index_def reset_index_def)

lemma columns_reset_index [simp]: "columns (reset_index df) = columns df"
  by (simp add: reset_index_def)

lemma length_body_reset_index [simp]: "length (body (reset_index df)) = length (body df)"
  by (simp add: reset_index_def)


lemma map_snd_filter_snd:
  "map snd (filter (\<lambda>(i, r). Q r) xs) = filter Q (map snd xs)"
  by (induction xs) auto

lemma rows_body_filter:
  "rows (df\<lparr>body := filter (\<lambda>(i, r). Q r) (body df)\<rparr>) = filter Q (rows df)"
  by (simp add: rows_def map_snd_filter_snd)

subsection \<open>The categorical filter\<close>

lemma multiselect_filter_eq:
  assumes "Str ''all'' \<notin> set V" and "col \<in> set (columns df)"
  shows "multiselect_filter df col V =
           Inr (reset_index (df\<lparr>body := filter (\<lambda>(i, r). get_cell (columns df) r col \<in> set V) (body df)\<rparr>))"
  using assms by (simp add: multiselect_filter_def isin_def select_rows_map)

lemma multiselect_filter_KeyError:
  assumes "Str ''all'' \<notin> set V" and "col \<notin> set (columns df)"
  shows "multiselect_filter df col V = Inl (KeyError col)"
  using assms by (simp add: multiselect_filter_def isin_def)

subsection \<open>The age range filter\<close>

lemma collect_cell_ge:
  assumes "\<forall>c\<in>set cs. \<not> is_Str c"
  shows "collect (map (\<lambda>c. cell_ge c v) cs)
           = Inr (map (\<lambda>c. case c of Num a \<Rightarrow> of_int v \<le> a | _ \<Rightarrow> False) cs)"
  using assms
proof (induction cs)
  case Nil
  then show ?case by simp
next
  case (Cons c cs)
  then show ?case by (cases c) auto
qed

lemma collect_cell_le:
  assumes "\<forall>c\<in>set cs. \<not> is_Str c"
  shows "collect (map (\<lambda>c. cell_le c v) cs)
           = Inr (map (\<lambda>c. case c of Num a \<Rightarrow> a \<le> of_int v | _ \<Rightarrow> False) cs)"
  using assms
proof (induction cs)
  case Nil
  then show ?case by simp
next
  case (Cons c cs)
  then show ?case by (cases c) auto
qed

lemma collect_cell_ge_Str:
  assumes "\<exists>c\<in>set cs. is_Str c"
  shows "collect (map (\<lambda>c. cell_ge c v) cs) = Inl TypeError"
  using assms
proof (induction cs)
  case Nil
  then show ?case by simp
next
  case (Cons c cs)
  then show ?case by (cases c) (auto split: sum.splits)
qed

lemma zip_map_same:
  "map (\<lambda>(a, b). a \<and> b) (zip (map P xs) (map Q xs)) = map (\<lambda>x. P x \<and> Q x) xs"
  by (induction xs) auto

lemma age_between_split:
  "age_between lo hi c
     = ((case c of Num a \<Rightarrow> of_int lo \<le> a | _ \<Rightarrow> False) \<and> (case c of Num a \<Rightarrow> a \<le> of_int hi | _ \<Rightarrow> False))"
  by (cases c) auto

lemma age_between_iff:
  "age_between lo hi c = (\<exists>a. c = Num a \<and> of_int lo \<le> a \<and> a \<le> of_int hi)"
  by (cases c) auto

lemma query_age_eq:
  assumes "''age'' \<in> set (columns df)"
    and "\<forall>c\<in>set (column_cells df ''age''). \<not> is_Str c"
  shows "query_age df lo hi =
           Inr (df\<lparr>body := filter (\<lambda>(i, r). age_between lo hi (get_cell (columns df) r ''age'')) (body df)\<rparr>)"
proof -
  let ?P = "\<lambda>(i::nat, r). age_between lo hi (get_cell (columns df) r ''age'')"
  have cc: "column_cells df ''age'' = map (\<lambda>(i, r). get_cell (columns df) r ''age'') (body df)"
    by (simp add: column_cells_def rows_def split_def comp_def)
  have "map (\<lambda>(a, b). a \<and> b)
          (zip (map (\<lambda>c. case c of Num a \<Rightarrow> of_int lo \<le> a | _ \<Rightarrow> False) (column_cells df ''age''))
               (map (\<lambda>c. case c of Num a \<Rightarrow> a \<le> of_int hi | _ \<Rightarrow> False) (column_cells df ''age'')))
        = map ?P (body df)"
    by (simp only: zip_map_same cc map_map) (simp add: age_between_split split_def comp_def)
  then show ?thesis
    using assms
    by (simp add: query_age_def collect_cell_ge collect_cell_le select_rows_map)
qed

lemma query_age_TypeError:
  assumes "''age'' \<in> set (columns df)"
    and "\<exists>c\<in>set (column_cells df ''age''). is_Str c"
  shows "query_age df lo hi = Inl TypeError"
  using assms by (simp add: query_age_def collect_cell_ge_Str)

subsection \<open>Chains of categorical filters\<close>

lemma filter_chain_Nil [simp]: "filter_chain [] r = r"
  by (simp add: filter_chain_def)

lemma filter_chain_Cons [simp]:
  "filter_chain ((c, s) # steps) r = filter_chain steps (pipe r (\<lambda>d. multiselect_filter d c s))"
  by (simp add: filter_chain_def)

lemma filter_chain_Inl [simp]: "filter_chain steps (Inl e) = Inl e"
  by (induction steps) auto

lemma apply_filters_chain:
  "apply_filters bank fs =
     filter_chain (categorical_steps fs) (query_age bank (fst (idades fs)) (snd (idades fs)))"
  by (simp add: apply_filters_def categorical_steps_def)




lemma filter_chain_KeyError:
  assumes "\<not> resolvable (columns D) steps"
  shows "\<exists>c. filter_chain steps (Inr D) = Inl (KeyError c)"
  using assms
proof (induction steps arbitrary: D)
  case Nil
  then show ?case by (simp add: resolvable_def)
next
  case (Cons x steps)
  obtain c s where x: "x = (c, s)" by (cases x)
  show ?case
  proof (cases "Str ''all'' \<in> set s")
    case True
    then show ?thesis
      using Cons by (simp add: x multiselect_filter_def resolvable_def)
  next
    case False
    show ?thesis
    proof (cases "c \<in> set (columns D)")
      case True
      then show ?thesis
        using Cons False by (simp add: x multiselect_filter_eq resolvable_def)
    next
      case False
      then show ?thesis
        using \<open>Str ''all'' \<notin> set s\<close> by (simp add: x multiselect_filter_KeyError)
    qed
  qed
qed





subsection \<open>Rounding to float64\<close>

lemma round_half_even_error: "\<bar>of_int (round_half_even m) - m\<bar> \<le> 1 / 2"
proof -
  have "of_int \<lfloor>m\<rfloor> \<le> m" and "m < of_int \<lfloor>m\<rfloor> + 1"
    by linarith+
  then show ?thesis
    by (auto simp add: round_half_even_def Let_def)
qed

lemma round_half_even_le:
  assumes "m \<le> of_int K"
  shows "round_half_even m \<le> K"
proof -
  have f: "\<lfloor>m\<rfloor> \<le> K"
    using assms by (simp add: floor_le_iff)
  show ?thesis
  proof (cases "m = of_int \<lfloor>m\<rfloor>")
    case True
    then have "m - of_int \<lfloor>m\<rfloor> = 0" by simp
    then show ?thesis using f by (simp add: round_half_even_def Let_def)
  next
    case False
    then have "of_int \<lfloor>m\<rfloor> < m"
      by (metis floor_less_iff less_le of_int_floor_le order_less_irrefl)
    then have "of_int \<lfloor>m\<rfloor> < (of_int K :: rat)" using assms by linarith
    then have "\<lfloor>m\<rfloor> < K" by simp
    then show ?thesis by (auto simp add: round_half_even_def Let_def)
  qed
qed

lemma round_half_even_ge:
  assumes "of_int K \<le> m"
  shows "K \<le> round_half_even m"
proof -
  have "K \<le> \<lfloor>m\<rfloor>" using assms by (simp add: le_floor_iff)
  then show ?thesis by (auto simp add: round_half_even_def Let_def)
qed

lemma two_powi_nat: "0 \<le> n \<Longrightarrow> (2::rat) ^ nat n = 2 powi n"
  by (simp add: power_int_def)

lemma ilog2_bounds:
  assumes "0 < x"
  shows "2 powi (ilog2 x) \<le> x \<and> x < 2 powi (ilog2 x + 1)"
proof -
  obtain p q where pq: "quotient_of x = (p, q)" by (cases "quotient_of x")
  then have q: "0 < q" and x: "x = of_int p / of_int q"
    by (simp_all add: quotient_of_denom_pos quotient_of_div)
  have p: "0 < p"
    using assms q x by (simp add: zero_less_divide_iff)
  let ?k = "bitlen p - bitlen q"
  have bp: "1 \<le> bitlen p" and bq: "1 \<le> bitlen q"
    using p q by (auto simp add: bitlen_alt_def)
  from bitlen_bounds [OF p] have p1: "(2::int) ^ nat (bitlen p - 1) \<le> p" and p2: "p < 2 ^ nat (bitlen p)"
    by simp_all
  from bitlen_bounds [OF q] have q1: "(2::int) ^ nat (bitlen q - 1) \<le> q" and q2: "q < 2 ^ nat (bitlen q)"
    by simp_all
  have P1: "(2::rat) powi (bitlen p - 1) \<le> of_int p"
  proof -
    have "(of_int ((2::int) ^ nat (bitlen p - 1)) :: rat) \<le> of_int p"
      using p1 by (simp only: of_int_le_iff)
    then show ?thesis
      using bp by (simp add: two_powi_nat)
  qed
  have P2: "of_int p < (2::rat) powi (bitlen p)"
  proof -
    have "(of_int p :: rat) < of_int ((2::int) ^ nat (bitlen p))"
      using p2 by (simp only: of_int_less_iff)
    then show ?thesis
      using bp by (simp add: two_powi_nat)
  qed
  have Q1: "(2::rat) powi (bitlen q - 1) \<le> of_int q"
  proof -
    have "(of_int ((2::int) ^ nat (bitlen q - 1)) :: rat) \<le> of_int q"
      using q1 by (simp only: of_int_le_iff)
    then show ?thesis
      using bq by (simp add: two_powi_nat)
  qed
  have Q2: "of_int q < (2::rat) powi (bitlen q)"
  proof -
    have "(of_int q :: rat) < of_int ((2::int) ^ nat (bitlen q))"
      using q2 by (simp only: of_int_less_iff)
    then show ?thesis
      using bq by (simp add: two_powi_nat)
  qed
  have pos: "0 < (2::rat) powi n" for n
    by simp
  have up: "x < 2 powi (?k + 1)"
  proof -
    have "of_int p / of_int q < (2::rat) powi (bitlen p) / 2 powi (bitlen q - 1)"
      using p P2 Q1 pos [of "bitlen q - 1"] by (intro frac_less) simp_all
    also have "\<dots> = 2 powi (bitlen p - (bitlen q - 1))"
      by (simp add: power_int_diff)
    also have "bitlen p - (bitlen q - 1) = ?k + 1"
      by simp
    finally show ?thesis
      by (simp only: x)
  qed
  have lo: "2 powi (?k - 1) \<le> x"
  proof -
    have "(2::rat) powi (bitlen p - 1) / 2 powi (bitlen q) \<le> of_int p / of_int q"
      using p q P1 Q2 by (intro frac_le) simp_all
    moreover have "(2::rat) powi (bitlen p - 1) / 2 powi (bitlen q) = 2 powi (bitlen p - 1 - bitlen q)"
      by (simp add: power_int_diff)
    moreover have "bitlen p - 1 - bitlen q = ?k - 1"
      by simp
    ultimately show ?thesis
      by (simp only: x)
  qed
  show ?thesis
    using up lo by (auto simp add: ilog2_def pq Let_def not_le)
qed


lemma powi_mono2: "a \<le> b \<Longrightarrow> (2::rat) powi a \<le> 2 powi b"
  by (simp add: power_int_increasing)

lemma powi_less_cancel: "(2::rat) powi a < 2 powi b \<Longrightarrow> a < b"
  by (meson linorder_not_le powi_mono2)

lemma ilog2_less:
  assumes "0 < x" and "x < 2 powi t"
  shows "ilog2 x < t"
proof -
  have "2 powi (ilog2 x) \<le> x"
    using ilog2_bounds [OF assms(1)] by simp
  with assms(2) have "(2::rat) powi (ilog2 x) < 2 powi t"
    by simp
  then show ?thesis
    by (rule powi_less_cancel)
qed

lemma f64_pos_eq:
  assumes "0 < x"
  shows "f64 x = of_int (round_half_even (x / 2 powi (ilog2 x - 52))) * 2 powi (ilog2 x - 52)"
  using assms by (simp add: f64_def Let_def)

lemma f64_nonneg:
  assumes "0 \<le> x"
  shows "0 \<le> f64 x"
proof (cases "x = 0")
  case True
  then show ?thesis by (simp add: f64_def)
next
  case False
  with assms have x: "0 < x" by simp
  have "(of_int 0 :: rat) \<le> x / 2 powi (ilog2 x - 52)"
    using x by simp
  then have "0 \<le> round_half_even (x / 2 powi (ilog2 x - 52))"
    by (rule round_half_even_ge)
  then show ?thesis
    by (simp add: f64_pos_eq [OF x])
qed

lemma f64_error:
  assumes "0 < x"
  shows "\<bar>f64 x - x\<bar> \<le> x / 2 ^ 53"
proof -
  let ?s = "(2::rat) powi (ilog2 x - 52)"
  let ?m = "x / ?s"
  have s: "0 < ?s" by simp
  have "f64 x - x = (of_int (round_half_even ?m) - ?m) * ?s"
    by (simp add: f64_pos_eq [OF assms] algebra_simps)
  then have "\<bar>f64 x - x\<bar> = \<bar>of_int (round_half_even ?m) - ?m\<bar> * ?s"
    using s by (simp add: abs_mult)
  also have "\<dots> \<le> 1 / 2 * ?s"
    using round_half_even_error [of ?m] s by (intro mult_right_mono) simp_all
  also have "1 / 2 * ?s = 2 powi (ilog2 x) / 2 ^ 53"
  proof -
    have "?s = 2 powi (ilog2 x) / 2 powi 52"
      by (simp add: power_int_diff)
    then show ?thesis by simp
  qed
  also have "\<dots> \<le> x / 2 ^ 53"
    using ilog2_bounds [OF assms] by (intro divide_right_mono) simp_all
  finally show ?thesis .
qed

lemma f64_le_grid:
  assumes "0 < x" and "x \<le> of_int K * 2 powi j" and "ilog2 x - 52 \<le> j"
  shows "f64 x \<le> of_int K * 2 powi j"
proof -
  let ?d = "ilog2 x - 52"
  let ?s = "(2::rat) powi ?d"
  have s: "0 < ?s" by simp
  have split: "(2::rat) powi j = 2 ^ nat (j - ?d) * ?s"
  proof -
    have "(2::rat) powi j = 2 powi ((j - ?d) + ?d)"
      by simp
    also have "\<dots> = 2 powi (j - ?d) * ?s"
      by (rule power_int_add) simp
    also have "(2::rat) powi (j - ?d) = 2 ^ nat (j - ?d)"
      using assms(3) by (simp add: two_powi_nat)
    finally show ?thesis .
  qed
  have "x / ?s \<le> of_int K * 2 powi j / ?s"
    using assms(2) s by (intro divide_right_mono) simp_all
  also have "of_int K * 2 powi j / ?s = of_int (K * 2 ^ nat (j - ?d))"
    using s by (simp add: split)
  finally have "round_half_even (x / ?s) \<le> K * 2 ^ nat (j - ?d)"
    by (rule round_half_even_le)
  then have "(of_int (round_half_even (x / ?s)) :: rat) \<le> of_int (K * 2 ^ nat (j - ?d))"
    by (simp only: of_int_le_iff)
  then have "of_int (round_half_even (x / ?s)) * ?s \<le> of_int (K * 2 ^ nat (j - ?d)) * ?s"
    using s by (intro mult_right_mono) simp_all
  also have "of_int (K * 2 ^ nat (j - ?d)) * ?s = of_int K * 2 powi j"
    by (simp add: split)
  finally show ?thesis
    by (simp only: f64_pos_eq [OF assms(1)])
qed

lemma f64_le_one:
  assumes "0 \<le> x" and "x \<le> 1"
  shows "f64 x \<le> 1"
proof (cases "x = 0")
  case True
  then show ?thesis by (simp add: f64_def)
next
  case False
  with assms have x: "0 < x" by simp
  have "x < 2 powi 1" using assms(2) by simp
  then have "ilog2 x < 1" by (rule ilog2_less [OF x])
  then have "ilog2 x - 52 \<le> 0" by simp
  with f64_le_grid [OF x, of 1 0] assms(2) show ?thesis by simp
qed

lemma f64_le_100:
  assumes "0 \<le> x" and "x \<le> 100"
  shows "f64 x \<le> 100"
proof (cases "x = 0")
  case True
  then show ?thesis by (simp add: f64_def)
next
  case False
  with assms have x: "0 < x" by simp
  have "x < 2 powi 7" using assms(2) by simp
  then have "ilog2 x < 7" by (rule ilog2_less [OF x])
  then have "ilog2 x - 52 \<le> 2" by simp
  with f64_le_grid [OF x, of 25 2] assms(2) show ?thesis by simp
qed

lemma f64_percent_bounds:
  assumes "0 < n" and "n \<le> N"
  shows "0 \<le> f64 (f64 (of_nat n / of_nat N) * 100) \<and> f64 (f64 (of_nat n / of_nat N) * 100) \<le> 100
         \<and> \<bar>f64 (f64 (of_nat n / of_nat N) * 100) - of_nat n / of_nat N * 100\<bar>
             \<le> of_nat n / of_nat N * 100 * (2 / 2 ^ 53 + 1 / 2 ^ 106)"
proof -
  let ?x = "(of_nat n / of_nat N) :: rat"
  let ?q = "f64 ?x"
  let ?u = "(1 / 2 ^ 53) :: rat"
  have x0: "0 < ?x" using assms by simp
  have x1: "?x \<le> 1" using assms by simp
  have q0: "0 \<le> ?q" using x0 by (intro f64_nonneg) simp
  have q1: "?q \<le> 1" using x0 x1 by (intro f64_le_one) simp_all
  have qe: "\<bar>?q - ?x\<bar> \<le> ?x * ?u" using f64_error [OF x0] by simp
  have z0: "0 \<le> ?q * 100" using q0 by simp
  have z1: "?q * 100 \<le> 100" using q1 by simp
  have p0: "0 \<le> f64 (f64 (of_nat n / of_nat N) * 100)" using z0 by (rule f64_nonneg)
  have p1: "f64 (f64 (of_nat n / of_nat N) * 100) \<le> 100" using z0 z1 by (rule f64_le_100)
  have pe: "\<bar>f64 (f64 (of_nat n / of_nat N) * 100) - ?q * 100\<bar> \<le> ?q * 100 * ?u"
  proof (cases "?q = 0")
    case True
    then show ?thesis by (simp add: f64_def)
  next
    case False
    with q0 have "0 < ?q * 100" by simp
    from f64_error [OF this] show ?thesis by simp
  qed
  have qu: "?q \<le> ?x * (1 + ?u)"
    using qe by (simp add: abs_le_iff algebra_simps)
  have sc: "\<bar>a * 100 - b * 100\<bar> = \<bar>a - b\<bar> * 100" for a b :: rat
  proof -
    have "a * 100 - b * 100 = (a - b) * 100"
      by (simp add: algebra_simps)
    then show ?thesis
      by (simp only: abs_mult)
  qed
  have tri: "\<bar>a - c\<bar> \<le> \<bar>a - b\<bar> + \<bar>b - c\<bar>" for a b c :: rat
    by linarith
  have "\<bar>f64 (f64 (of_nat n / of_nat N) * 100) - ?x * 100\<bar> \<le> \<bar>f64 (f64 (of_nat n / of_nat N) * 100) - ?q * 100\<bar> + \<bar>?q * 100 - ?x * 100\<bar>"
    by (rule tri)
  also have "\<bar>?q * 100 - ?x * 100\<bar> = \<bar>?q - ?x\<bar> * 100"
    by (rule sc)
  also have "\<bar>f64 (f64 (of_nat n / of_nat N) * 100) - ?q * 100\<bar> + \<bar>?q - ?x\<bar> * 100 \<le> ?q * 100 * ?u + ?x * ?u * 100"
    using pe qe by (intro add_mono mult_right_mono) simp_all
  also have "\<dots> \<le> ?x * (1 + ?u) * 100 * ?u + ?x * ?u * 100"
    using qu by (intro add_mono mult_right_mono) simp_all
  also have "\<dots> = ?x * 100 * (2 / 2 ^ 53 + 1 / 2 ^ 106)"
    by (simp add: algebra_simps)
  finally show ?thesis
    using p0 p1 by simp
qed

subsection \<open>Results keep the columns and lose rows only\<close>

lemma select_rows_sub:
  "columns (select_rows df m) = columns df \<and> set (rows (select_rows df m)) \<subseteq> set (rows df)
   \<and> length (body (select_rows df m)) \<le> length (body df)"
proof -
  have "x \<in> set (body df)" if "x \<in> set (map fst (filter snd (zip (body df) m)))" for x
  proof -
    from that obtain y where "(x, y) \<in> set (zip (body df) m)"
      by auto
    then show ?thesis
      by (rule set_zip_leftD)
  qed
  then have "set (map fst (filter snd (zip (body df) m))) \<subseteq> set (body df)"
    by blast
  then have "set (body (select_rows df m)) \<subseteq> set (body df)"
    by (simp add: select_rows_def)
  then have s: "set (rows (select_rows df m)) \<subseteq> set (rows df)"
    unfolding rows_def by auto
  have "length (filter snd (zip (body df) m)) \<le> length (zip (body df) m)"
    by (rule length_filter_le)
  then have "length (body (select_rows df m)) \<le> length (body df)"
    by (simp add: select_rows_def)
  with s show ?thesis
    by (simp add: select_rows_def)
qed

lemma query_age_sub:
  assumes "query_age df lo hi = Inr R"
  shows "columns R = columns df \<and> set (rows R) \<subseteq> set (rows df)
         \<and> length (body R) \<le> length (body df)"
proof -
  from assms obtain m where "R = select_rows df m"
    by (auto simp add: query_age_def split: if_splits sum.splits)
  then show ?thesis
    using select_rows_sub [of df m] by simp
qed

lemma multiselect_filter_sub:
  assumes "multiselect_filter d c s = Inr R"
  shows "columns R = columns d \<and> set (rows R) \<subseteq> set (rows d)
         \<and> length (body R) \<le> length (body d)"
proof (cases "Str ''all'' \<in> set s")
  case True
  then show ?thesis
    using assms by (simp add: multiselect_filter_def)
next
  case False
  with assms obtain m where "R = reset_index (select_rows d m)"
    by (auto simp add: multiselect_filter_def split: sum.splits)
  then show ?thesis
    using select_rows_sub [of d m] by simp
qed

lemma multiselect_filter_empty_selection_body:
  assumes "col \<in> set (columns D)"
  shows "multiselect_filter D col [] = Inr \<lparr>columns = columns D, body = []\<rparr>"
proof -
  have "multiselect_filter D col [] = Inr (reset_index (D\<lparr>body := []\<rparr>))"
    using assms by (simp add: multiselect_filter_eq)
  moreover have "reset_index (D\<lparr>body := []\<rparr>) = \<lparr>columns = columns D, body = []\<rparr>"
    by (cases D) (simp add: reset_index_def)
  ultimately show ?thesis by simp
qed

subsection \<open>The cache\<close>

lemma pipe_cached_Inl [simp]: "pipe_cached (Inl e, c) f = (Inl e, c)"
  by (simp add: pipe_cached_def)

lemma pipe_cached_Inr [simp]: "pipe_cached (Inr d, c) f = f d c"
  by (simp add: pipe_cached_def)

lemma filter_chain_cached_Nil [simp]: "filter_chain_cached sample [] r = r"
  by (simp add: filter_chain_cached_def)

lemma filter_chain_cached_Cons [simp]:
  "filter_chain_cached sample ((col, s) # steps) r
     = filter_chain_cached sample steps
         (pipe_cached r (\<lambda>d. multiselect_filter_cached sample d col s))"
  by (simp add: filter_chain_cached_def)

lemma filter_chain_cached_Inl [simp]: "filter_chain_cached sample steps (Inl e, c) = (Inl e, c)"
  by (induction steps) auto

lemma apply_filters_cached_chain:
  "apply_filters_cached sample bank fs c =
     filter_chain_cached sample (categorical_steps fs)
       (query_age bank (fst (idades fs)) (snd (idades fs)), c)"
  by (simp add: apply_filters_cached_def categorical_steps_def)

lemma cached_hit:
  assumes "map_of c (hash_df sample df, col, sel) = Some r"
  shows "multiselect_filter_cached sample df col sel c = (Inr r, c)"
  using assms by (simp add: multiselect_filter_cached_def cache_data_def)

lemma cached_miss:
  assumes "map_of c (hash_df sample df, col, sel) = None"
  shows "multiselect_filter_cached sample df col sel c =
           (case multiselect_filter df col sel of
              Inl e \<Rightarrow> (Inl e, c)
            | Inr r \<Rightarrow> (Inr r, ((hash_df sample df, col, sel), r) # c))"
  using assms by (simp add: multiselect_filter_cached_def cache_data_def)


lemma cache_ok_Cons:
  assumes "cache_ok sample c" and "multiselect_filter d col sel = Inr r"
  shows "cache_ok sample (((hash_df sample d, col, sel), r) # c)"
  using assms unfolding cache_ok_def by auto

lemma cache_ok_hit:
  assumes "cache_ok sample c" and "map_of c (fk, col, sel) = Some r"
  shows "\<exists>d. hash_df sample d = fk \<and> multiselect_filter d col sel = Inr r"
proof -
  from assms(2) have "((fk, col, sel), r) \<in> set c"
    by (rule map_of_SomeD)
  with assms(1) show ?thesis
    unfolding cache_ok_def by blast
qed

lemma hash_df_columns:
  assumes "hash_df sample d = hash_df sample d'"
  shows "columns d = columns d'"
proof -
  from assms have "dtypes d = dtypes d'"
    by (simp add: hash_df_def)
  then have "map fst (dtypes d) = map fst (dtypes d')"
    by simp
  then show ?thesis
    by (simp add: dtypes_def comp_def)
qed

lemma hash_df_small:
  assumes "length (body d) < PANDAS_ROWS_LARGE" and "hash_df sample d' = hash_df sample d"
  shows "d' = d"
proof -
  from assms(2) have len: "length (body d') = length (body d)"
    by (simp add: hash_df_def)
  with assms have "body d' = body d"
    by (simp add: hash_df_def)
  moreover have "columns d' = columns d"
    using assms(2) by (rule hash_df_columns)
  ultimately show ?thesis
    by simp
qed

text \<open>Any call on a cache of stored results: the cache stays one, and a result has the columns of the argument.\<close>

lemma cached_ok:
  assumes "cache_ok sample c" and "multiselect_filter_cached sample D col sel c = (x, c')"
  shows "cache_ok sample c' \<and> (\<forall>R. x = Inr R \<longrightarrow> columns R = columns D)"
proof (cases "map_of c (hash_df sample D, col, sel)")
  case None
  show ?thesis
  proof (cases "multiselect_filter D col sel")
    case (Inl e)
    then show ?thesis
      using assms None by (auto simp add: cached_miss)
  next
    case (Inr r)
    then have "cache_ok sample (((hash_df sample D, col, sel), r) # c)"
      using assms(1) by (intro cache_ok_Cons)
    then show ?thesis
      using assms(2) None Inr multiselect_filter_sub [OF Inr] by (auto simp add: cached_miss)
  qed
next
  case (Some r)
  from cache_ok_hit [OF assms(1) Some]
  obtain d where d: "hash_df sample d = hash_df sample D" and r: "multiselect_filter d col sel = Inr r"
    by blast
  have "columns r = columns D"
    using multiselect_filter_sub [OF r] hash_df_columns [OF d] by simp
  then show ?thesis
    using assms Some by (auto simp add: cached_hit)
qed

text \<open>A call with a DataFrame below 50000 rows on such a cache, or any call that misses.\<close>

lemma cached_small:
  assumes "cache_ok sample c" and "length (body D) < PANDAS_ROWS_LARGE"
  shows "fst (multiselect_filter_cached sample D col sel c) = multiselect_filter D col sel"
proof (cases "map_of c (hash_df sample D, col, sel)")
  case None
  then show ?thesis
    by (simp add: cached_miss split: sum.splits)
next
  case (Some r)
  from cache_ok_hit [OF assms(1) Some]
  obtain d where d: "hash_df sample d = hash_df sample D" and r: "multiselect_filter d col sel = Inr r"
    by blast
  from hash_df_small [OF assms(2) d] have "d = D" .
  with r Some show ?thesis
    by (simp add: cached_hit)
qed

lemma cached_miss_fst:
  assumes "map_of c (hash_df sample D, col, sel) = None"
  shows "fst (multiselect_filter_cached sample D col sel c) = multiselect_filter D col sel"
  using assms by (simp add: cached_miss split: sum.splits)



lemma filter_chain_cached_small:
  assumes "cache_ok sample c" and "length (body D) < PANDAS_ROWS_LARGE"
  shows "fst (filter_chain_cached sample steps (Inr D, c)) = filter_chain steps (Inr D)"
  using assms
proof (induction steps arbitrary: D c)
  case Nil
  then show ?case by simp
next
  case (Cons x steps)
  obtain col s where x: "x = (col, s)" by (cases x)
  obtain y c' where y: "multiselect_filter_cached sample D col s c = (y, c')"
    by (cases "multiselect_filter_cached sample D col s c")
  have ok: "cache_ok sample c'"
    using cached_ok [OF Cons.prems(1) y] by (rule conjunct1)
  from cached_small [OF Cons.prems, of col s] y have val: "y = multiselect_filter D col s"
    by simp
  show ?case
  proof (cases y)
    case (Inl e)
    then show ?thesis
      using val by (simp add: x y)
  next
    case (Inr D')
    then have "length (body D') \<le> length (body D)"
      using val multiselect_filter_sub [of D col s D'] by simp
    then have "length (body D') < PANDAS_ROWS_LARGE"
      using Cons.prems(2) by simp
    note ih = Cons.IH [OF ok this]
    have step: "filter_chain_cached sample (x # steps) (Inr D, c)
                  = filter_chain_cached sample steps (Inr D', c')"
      by (simp only: x filter_chain_cached_Cons pipe_cached_Inr y Inr)
    have "filter_chain (x # steps) (Inr D) = filter_chain steps (Inr D')"
      using val Inr by (simp add: x)
    with ih step show ?thesis
      by simp
  qed
qed

lemma apply_filters_cached_small:
  assumes "cache_ok sample c" and "length (body D) < PANDAS_ROWS_LARGE"
  shows "fst (apply_filters_cached sample D fs c) = apply_filters D fs"
proof (cases "query_age D (fst (idades fs)) (snd (idades fs))")
  case (Inl e)
  then show ?thesis
    by (simp add: apply_filters_cached_chain apply_filters_chain)
next
  case (Inr D1)
  then have "length (body D1) < PANDAS_ROWS_LARGE"
    using query_age_sub [OF Inr] assms(2) by simp
  from filter_chain_cached_small [OF assms(1) this] show ?thesis
    by (simp add: apply_filters_cached_chain apply_filters_chain Inr)
qed


subsection \<open>DataFrames of 50000 rows\<close>


lemma rows_large_Suc: "Suc (PANDAS_ROWS_LARGE - 1) = PANDAS_ROWS_LARGE"
  by (simp add: PANDAS_ROWS_LARGE_def)

lemma rows_large_Suc0 [simp]: "Suc (PANDAS_ROWS_LARGE - Suc 0) = PANDAS_ROWS_LARGE"
  by (simp add: PANDAS_ROWS_LARGE_def)


lemma columns_big_frame [simp]: "columns (big_frame r) = bank_columns"
  by (simp add: big_frame_def)

lemma body_big_frame:
  "body (big_frame r)
     = zip [0..<PANDAS_ROWS_LARGE - 1] (replicate (PANDAS_ROWS_LARGE - 1) usual_row)
       @ [(PANDAS_ROWS_LARGE - 1, r)]"
proof -
  have "[0..<PANDAS_ROWS_LARGE] = [0..<PANDAS_ROWS_LARGE - 1] @ [PANDAS_ROWS_LARGE - 1]"
    using upt_Suc_append [of 0 "PANDAS_ROWS_LARGE - 1"] by (simp only: rows_large_Suc)
  then show ?thesis
    by (simp add: big_frame_def)
qed

lemma length_body_big_frame [simp]: "length (body (big_frame r)) = PANDAS_ROWS_LARGE"
  by (simp add: body_big_frame rows_large_Suc)



lemma filter_zip_replicate:
  "filter (\<lambda>(i, x). P x) (zip xs (replicate n u)) = (if P u then zip xs (replicate n u) else [])"
proof -
  have "\<forall>p\<in>set (zip xs (replicate n u)). snd p = u"
    by (auto dest: set_zip_rightD)
  then show ?thesis
    by (auto simp add: filter_empty_conv filter_id_conv)
qed

lemma filter_body_big_frame:
  "filter (\<lambda>(i, x). P x) (body (big_frame r))
     = (if P usual_row
        then zip [0..<PANDAS_ROWS_LARGE - 1] (replicate (PANDAS_ROWS_LARGE - 1) usual_row) else [])
       @ (if P r then [(PANDAS_ROWS_LARGE - 1, r)] else [])"
  by (simp add: body_big_frame filter_zip_replicate)







lemma hash_big_frame_neq:
  assumes "length (body d) < PANDAS_ROWS_LARGE"
  shows "hash_df sample d \<noteq> hash_df sample' (big_frame r)"
    and "hash_df sample' (big_frame r) \<noteq> hash_df sample d"
  using assms by (auto simp add: hash_df_def)

text \<open>
  Whatever positions are sampled, some row of a frame of 50000 rows is left out, and the
  frame that differs in that row only, in a cell of the same kind, has the same key.
\<close>

lemma unsampled_position:
  "\<exists>p<PANDAS_ROWS_LARGE. p \<notin> set (take PANDAS_SAMPLE_SIZE (sample PANDAS_ROWS_LARGE))"
proof (rule ccontr)
  assume "\<not> ?thesis"
  then have "{..<PANDAS_ROWS_LARGE} \<subseteq> set (take PANDAS_SAMPLE_SIZE (sample PANDAS_ROWS_LARGE))"
    by auto
  then have "card {..<PANDAS_ROWS_LARGE} \<le> card (set (take PANDAS_SAMPLE_SIZE (sample PANDAS_ROWS_LARGE)))"
    by (intro card_mono) simp_all
  also have "\<dots> \<le> length (take PANDAS_SAMPLE_SIZE (sample PANDAS_ROWS_LARGE))"
    by (rule card_length)
  also have "\<dots> \<le> PANDAS_SAMPLE_SIZE"
    by simp
  finally show False
    by (simp add: PANDAS_ROWS_LARGE_def PANDAS_SAMPLE_SIZE_def)
qed

lemma sampled_key_collision:
  "\<exists>d d'. length (body d) = PANDAS_ROWS_LARGE \<and> rows d \<noteq> rows d'
          \<and> hash_df sample d = hash_df sample d'"
proof -
  obtain p where p: "p < PANDAS_ROWS_LARGE"
    and np: "p \<notin> set (take PANDAS_SAMPLE_SIZE (sample PANDAS_ROWS_LARGE))"
    using unsampled_position by blast
  let ?b = "zip [0..<PANDAS_ROWS_LARGE] (replicate PANDAS_ROWS_LARGE [Str ''admin''])"
  let ?b' = "?b[p := (p, [Str ''technician''])]"
  let ?d = "\<lparr>columns = [''job''], body = ?b\<rparr>"
  let ?d' = "\<lparr>columns = [''job''], body = ?b'\<rparr>"
  have len: "length ?b = PANDAS_ROWS_LARGE" "length ?b' = PANDAS_ROWS_LARGE"
    by simp_all
  have bp: "?b ! p = (p, [Str ''admin''])"
    using p by simp
  have "map snd ?b ! p \<noteq> map snd ?b' ! p"
    using p by (simp add: nth_list_update)
  then have r: "rows ?d \<noteq> rows ?d'"
    unfolding rows_def by auto
  have "?b ! i = ?b' ! i"
    if "i \<in> set (filter (\<lambda>i. i < PANDAS_ROWS_LARGE) (take PANDAS_SAMPLE_SIZE (sample PANDAS_ROWS_LARGE)))"
    for i
  proof -
    from that np have "i \<noteq> p"
      by auto
    then have "p \<noteq> i"
      by simp
    then show ?thesis
      by (rule nth_list_update_neq [symmetric])
  qed
  then have "sample_rows sample ?b = sample_rows sample ?b'"
    unfolding sample_rows_def len by (intro map_cong refl)
  moreover have "dtypes ?d = dtypes ?d'"
  proof -
    have "(p, [Str ''technician'']) \<in> set ?b'"
      using p by (simp add: set_update_memI)
    then have "[Str ''technician''] \<in> set (map snd ?b')"
      by force
    then have "list_ex is_Str (column_cells ?d' ''job'')"
      unfolding column_cells_def rows_def list_ex_iff by (force simp add: get_cell_def)
    moreover have "(p, [Str ''admin'']) \<in> set ?b"
      by (metis bp len(1) nth_mem p)
    then have "snd (p, [Str ''admin'']) \<in> snd ` set ?b"
      by (rule imageI)
    then have "[Str ''admin''] \<in> set (map snd ?b)"
      by (simp only: set_map snd_conv)
    then have "list_ex is_Str (column_cells ?d ''job'')"
      unfolding column_cells_def rows_def list_ex_iff by (force simp add: get_cell_def)
    ultimately show ?thesis
      by (simp add: dtypes_def)
  qed
  ultimately have "hash_df sample ?d = hash_df sample ?d'"
    by (simp add: hash_df_def)
  with r len show ?thesis
    by (intro exI [of _ ?d] exI [of _ ?d']) simp
qed



lemma technicians_of_other_frame:
  "multiselect_filter (big_frame other_row) ''job'' [Str ''technician''] = Inr one_row"
proof -
  have "filter (\<lambda>(i, x). get_cell (columns (big_frame other_row)) x ''job'' \<in> set [Str ''technician''])
          (body (big_frame other_row)) = [(PANDAS_ROWS_LARGE - 1, other_row)]"
    by (simp add: filter_body_big_frame)
       (simp add: bank_columns_def usual_row_def other_row_def get_cell_def)
  then show ?thesis
    by (simp add: multiselect_filter_eq bank_columns_def reset_index_def one_row_def big_frame_def)
qed


subsection \<open>Runs of the pipeline on the frames of 50000 rows\<close>

lemma hash_small_neq:
  assumes "length (body d) < PANDAS_ROWS_LARGE" and "d' \<noteq> d"
  shows "hash_df sample d' \<noteq> hash_df sample d"
  using assms hash_df_small by blast

lemma hash_one_row_neq [simp]:
  "hash_df sample one_row \<noteq> hash_df sample no_rows"
  "hash_df sample no_rows \<noteq> hash_df sample one_row"
  "hash_df sample one_row \<noteq> hash_df sample' (big_frame r)"
  "hash_df sample no_rows \<noteq> hash_df sample' (big_frame r)"
  "hash_df sample' (big_frame r) \<noteq> hash_df sample one_row"
  "hash_df sample' (big_frame r) \<noteq> hash_df sample no_rows"
  by (simp_all add: hash_small_neq hash_big_frame_neq one_row_def no_rows_def PANDAS_ROWS_LARGE_def)









subsection \<open>The pipeline without the cache\<close>




subsection \<open>The proportion table\<close>

lemma distinct_first_seen: "distinct (first_seen vs)"
  by (simp add: first_seen_def)

lemma set_first_seen: "set (first_seen vs) = set vs"
  by (simp add: first_seen_def)

lemma sum_list_mset_cong:
  fixes xs :: "'a::comm_monoid_add list"
  shows "mset xs = mset ys \<Longrightarrow> sum_list xs = sum_list ys"
  by (metis sum_mset_sum_list)

lemma sum_list_sort_key:
  fixes f :: "'a \<Rightarrow> 'b::comm_monoid_add"
  shows "sum_list (map f (sort_key g xs)) = sum_list (map f xs)"
proof -
  have "mset (map f (sort_key g xs)) = mset (map f xs)"
    by simp
  then show ?thesis
    by (metis sum_mset_sum_list)
qed

lemma sum_list_count_list:
  assumes "distinct ks" and "set ks = set vs"
  shows "sum_list (map (count_list vs) ks) = length vs"
proof -
  have "sum_list (map (count_list vs) ks) = sum (count_list vs) (set ks)"
    using assms(1) by (rule sum_list_distinct_conv_sum_set)
  also have "\<dots> = length vs"
    using assms(2) by (simp add: sum_count_set)
  finally show ?thesis .
qed

lemma map_fst_value_counts:
  "mset (map fst (value_counts cs)) = mset (first_seen (filter (\<lambda>c. \<not> is_NaN c) cs))"
proof -
  let ?vs = "filter (\<lambda>c. \<not> is_NaN c) cs"
  let ?xs = "map (\<lambda>k. (k, count_list ?vs k)) (first_seen ?vs)"
  have "mset (map fst (value_counts cs)) = image_mset fst (mset (sort_key (\<lambda>(k, n). - int n) ?xs))"
    by (simp only: value_counts_def Let_def mset_map)
  also have "\<dots> = image_mset fst (mset ?xs)"
    by (simp only: mset_sort)
  also have "\<dots> = mset (map fst ?xs)"
    by (simp only: mset_map)
  also have "map fst ?xs = first_seen ?vs"
    by (simp add: comp_def)
  finally show ?thesis .
qed

lemma sum_snd_value_counts:
  "sum_list (map snd (value_counts cs)) = length (filter (\<lambda>c. \<not> is_NaN c) cs)"
proof -
  let ?vs = "filter (\<lambda>c. \<not> is_NaN c) cs"
  have "sum_list (map snd (value_counts cs))
          = sum_list (map snd (map (\<lambda>k. (k, count_list ?vs k)) (first_seen ?vs)))"
    by (simp only: value_counts_def Let_def sum_list_sort_key)
  also have "\<dots> = sum_list (map (count_list ?vs) (first_seen ?vs))"
    by (simp add: comp_def)
  also have "\<dots> = length ?vs"
    by (rule sum_list_count_list) (simp_all add: distinct_first_seen set_first_seen)
  finally show ?thesis .
qed

lemma count_list_filter:
  "P k \<Longrightarrow> count_list (filter P xs) k = count_list xs k"
  by (induction xs) auto

lemma in_value_counts:
  assumes "(k, n) \<in> set (value_counts cs)"
  shows "k \<in> set cs \<and> \<not> is_NaN k \<and> n = count_list cs k"
proof -
  let ?vs = "filter (\<lambda>c. \<not> is_NaN c) cs"
  from assms have "(k, n) \<in> set (map (\<lambda>k. (k, count_list ?vs k)) (first_seen ?vs))"
    by (simp add: value_counts_def Let_def)
  then have "k \<in> set ?vs" and "n = count_list ?vs k"
    by (auto simp add: set_first_seen)
  then show ?thesis
    by (simp add: count_list_filter)
qed

lemma value_counts_pos:
  assumes "(k, n) \<in> set (value_counts cs)"
  shows "0 < n \<and> n \<le> length (filter (\<lambda>c. \<not> is_NaN c) cs)"
proof -
  let ?vs = "filter (\<lambda>c. \<not> is_NaN c) cs"
  from assms have "(k, n) \<in> set (map (\<lambda>k. (k, count_list ?vs k)) (first_seen ?vs))"
    by (simp add: value_counts_def Let_def)
  then have k: "k \<in> set ?vs" and n: "n = count_list ?vs k"
    by (auto simp add: set_first_seen)
  from k have "count_list ?vs k \<noteq> 0"
    by (simp only: count_list_0_iff not_not)
  then show ?thesis
    unfolding n by (simp add: count_le_length)
qed

text \<open>
  The table before sorting by index: each count over the number of values, in float64,
  times 100, in float64.
\<close>

lemma value_counts_perc_eq:
  assumes "''y'' \<in> set (columns df)"
  shows "value_counts_perc df =
           Inr (map (\<lambda>(k, n). (k, f64 (f64 (of_nat n
                  / of_nat (length (filter (\<lambda>c. \<not> is_NaN c) (column_cells df ''y'')))) * 100)))
                (value_counts (column_cells df ''y'')))"
  using assms
  by (simp add: value_counts_perc_def normalize_def sum_snd_value_counts split_def comp_def)

lemma sum_list_scaled:
  fixes d :: rat
  shows "sum_list (map (\<lambda>(k, n). of_nat n / d * 100) xs) = of_nat (sum_list (map snd xs)) / d * 100"
  by (induction xs) (auto simp add: add_divide_distrib distrib_right)

text \<open>The two roundings move the sum of the entries by at most the sum of their errors.\<close>

lemma sum_list_percent_error:
  fixes xs :: "('a \<times> nat) list"
  assumes "\<forall>(k, n)\<in>set xs. 0 < n \<and> n \<le> N"
  shows "\<bar>sum_list (map (\<lambda>(k, n). f64 (f64 (of_nat n / of_nat N) * 100)) xs)
          - sum_list (map (\<lambda>(k, n). of_nat n / of_nat N * 100) xs)\<bar>
         \<le> sum_list (map (\<lambda>(k, n). of_nat n / of_nat N * 100) xs) * (2 / 2 ^ 53 + 1 / 2 ^ 106)"
  using assms
proof (induction xs)
  case Nil
  then show ?case by simp
next
  case (Cons x xs)
  obtain k n where x: "x = (k, n)"
    by (cases x)
  let ?e = "(2 / 2 ^ 53 + 1 / 2 ^ 106) :: rat"
  let ?p = "f64 (f64 (of_nat n / of_nat N) * 100)"
  let ?q = "(of_nat n / of_nat N * 100) :: rat"
  let ?P = "sum_list (map (\<lambda>(k, n). f64 (f64 (of_nat n / of_nat N) * 100)) xs)"
  let ?Q = "sum_list (map (\<lambda>(k, n). (of_nat n / of_nat N * 100) :: rat) xs)"
  from Cons.prems x have n: "0 < n" "n \<le> N"
    by simp_all
  from f64_percent_bounds [OF n] have h: "\<bar>?p - ?q\<bar> \<le> ?q * ?e"
    by simp
  from Cons.prems have "\<forall>(k, n)\<in>set xs. 0 < n \<and> n \<le> N"
    by simp
  then have ih: "\<bar>?P - ?Q\<bar> \<le> ?Q * ?e"
    by (rule Cons.IH)
  have tri: "\<bar>(a + b) - (c + d)\<bar> \<le> \<bar>a - c\<bar> + \<bar>b - d\<bar>" for a b c d :: rat
    by linarith
  have "\<bar>(?p + ?P) - (?q + ?Q)\<bar> \<le> \<bar>?p - ?q\<bar> + \<bar>?P - ?Q\<bar>"
    by (rule tri)
  also have "\<dots> \<le> ?q * ?e + ?Q * ?e"
    using h ih by (rule add_mono)
  also have "\<dots> = (?q + ?Q) * ?e"
    by (simp only: distrib_right)
  finally show ?case
    by (simp only: x list.map sum_list.Cons prod.case)
qed

lemma sorted_wrt_cell_less_Str:
  assumes "\<forall>k\<in>set ks. is_Str k" and "distinct ks" and "sorted (map str_of ks)"
  shows "sorted_wrt cell_less ks"
  using assms
proof (induction ks)
  case Nil
  then show ?case by simp
next
  case (Cons k ks)
  have "cell_less k y" if "y \<in> set ks" for y
  proof -
    from Cons.prems(1) that have "is_Str k" and "is_Str y"
      by auto
    then obtain s t where st: "k = Str s" "y = Str t"
      by (auto simp add: is_Str_def)
    have "s \<le> t"
      using Cons.prems(3) that st by auto
    moreover have "s \<noteq> t"
      using Cons.prems(2) that st by auto
    ultimately show ?thesis
      by (simp add: st)
  qed
  then show ?case
    using Cons by simp
qed

lemma sorted_wrt_cell_less_Num:
  assumes "\<forall>k\<in>set ks. is_Num k" and "distinct ks" and "sorted (map num_of ks)"
  shows "sorted_wrt cell_less ks"
  using assms
proof (induction ks)
  case Nil
  then show ?case by simp
next
  case (Cons k ks)
  have "cell_less k y" if "y \<in> set ks" for y
  proof -
    from Cons.prems(1) that have "is_Num k" and "is_Num y"
      by auto
    then obtain a b where ab: "k = Num a" "y = Num b"
      by (auto simp add: is_Num_def)
    have "a \<le> b"
      using Cons.prems(3) that ab by auto
    moreover have "a \<noteq> b"
      using Cons.prems(2) that ab by auto
    ultimately show ?thesis
      by (simp add: ab)
  qed
  then show ?case
    using Cons by simp
qed

lemma map_key_fst: "map (\<lambda>(k, p). f k) t = map f (map fst t)"
  by (induction t) auto

text \<open>What sort_index returns on a table with distinct keys of one kind.\<close>

lemma sort_index_sorted:
  assumes "(\<forall>k\<in>set (map fst P). is_Str k) \<or> (\<forall>k\<in>set (map fst P). is_Num k)"
    and "distinct (map fst P)"
  shows "\<exists>t. sort_index P = Inr t \<and> mset t = mset P \<and> sorted_wrt cell_less (map fst t)"
proof (cases "list_all (\<lambda>(k, p). is_Str k) P")
  case True
  let ?t = "sort_key (\<lambda>(k, p). str_of k) P"
  have "sorted (map (\<lambda>(k, p). str_of k) ?t)"
    by (rule sorted_sort_key)
  then have s: "sorted (map str_of (map fst ?t))"
    by (simp only: map_key_fst)
  have m: "mset ?t = mset P"
    by simp
  then have mf: "mset (map fst ?t) = mset (map fst P)"
    by (metis mset_map)
  have d: "distinct (map fst ?t)"
    using assms(2) mf by (metis mset_eq_imp_distinct_iff)
  have a: "\<forall>k\<in>set (map fst ?t). is_Str k"
    using True by (auto simp add: list_all_iff)
  have "sorted_wrt cell_less (map fst ?t)"
    using a d s by (rule sorted_wrt_cell_less_Str)
  moreover have "sort_index P = Inr ?t"
    using True by (simp add: sort_index_def)
  ultimately show ?thesis
    using m by blast
next
  case False
  then have num: "\<forall>k\<in>set (map fst P). is_Num k"
    using assms(1) by (auto simp add: list_all_iff)
  then have ln: "list_all (\<lambda>(k, p). is_Num k) P"
    by (auto simp add: list_all_iff)
  let ?t = "sort_key (\<lambda>(k, p). num_of k) P"
  have "sorted (map (\<lambda>(k, p). num_of k) ?t)"
    by (rule sorted_sort_key)
  then have s: "sorted (map num_of (map fst ?t))"
    by (simp only: map_key_fst)
  have m: "mset ?t = mset P"
    by simp
  then have mf: "mset (map fst ?t) = mset (map fst P)"
    by (metis mset_map)
  have d: "distinct (map fst ?t)"
    using assms(2) mf by (metis mset_eq_imp_distinct_iff)
  have a: "\<forall>k\<in>set (map fst ?t). is_Num k"
    using num by simp
  have "sorted_wrt cell_less (map fst ?t)"
    using a d s by (rule sorted_wrt_cell_less_Num)
  moreover have "sort_index P = Inr ?t"
    using False ln by (simp add: sort_index_def)
  ultimately show ?thesis
    using m by blast
qed

subsection \<open>The proportion section in a run of main\<close>

lemma filter_chain_sub:
  assumes "filter_chain steps (Inr d) = Inr R"
  shows "columns R = columns d \<and> set (rows R) \<subseteq> set (rows d)"
  using assms
proof (induction steps arbitrary: d)
  case Nil
  then show ?case by simp
next
  case (Cons x steps)
  obtain c s where x: "x = (c, s)" by (cases x)
  show ?case
  proof (cases "multiselect_filter d c s")
    case (Inl e)
    then show ?thesis
      using Cons.prems by (simp add: x)
  next
    case (Inr d')
    then have "filter_chain steps (Inr d') = Inr R"
      using Cons.prems by (simp add: x)
    from Cons.IH [OF this] multiselect_filter_sub [OF Inr] show ?thesis
      by auto
  qed
qed

lemma apply_filters_sub:
  assumes "apply_filters D fs = Inr B"
  shows "columns B = columns D \<and> set (rows B) \<subseteq> set (rows D)"
proof (cases "query_age D (fst (idades fs)) (snd (idades fs))")
  case (Inl e)
  then show ?thesis
    using assms by (simp add: apply_filters_chain)
next
  case (Inr D1)
  then have "filter_chain (categorical_steps fs) (Inr D1) = Inr B"
    using assms by (simp add: apply_filters_chain)
  from filter_chain_sub [OF this] query_age_sub [OF Inr] show ?thesis
    by auto
qed

lemma set_fst_value_counts:
  "set (map fst (value_counts cs)) = {c \<in> set cs. \<not> is_NaN c}"
proof -
  have "set (map fst (value_counts cs)) = set (first_seen (filter (\<lambda>c. \<not> is_NaN c) cs))"
    using map_fst_value_counts [of cs] by (rule mset_eq_setD)
  then show ?thesis
    by (simp add: set_first_seen)
qed

lemma keys_value_counts_perc:
  assumes "value_counts_perc df = Inr P"
  shows "set (map fst P) = {c \<in> set (column_cells df ''y''). \<not> is_NaN c}"
proof -
  have a: "map fst (normalize xs) = map fst xs" for xs
    by (simp add: normalize_def split_def comp_def)
  have b: "map fst (map (\<lambda>(k, p). (k, f64 (p * 100))) zs) = map fst zs" for zs :: table
    by (simp add: split_def comp_def)
  from assms have "P = map (\<lambda>(k, p). (k, f64 (p * 100))) (normalize (value_counts (column_cells df ''y'')))"
    by (simp add: value_counts_perc_def split: if_splits)
  then have "map fst P = map fst (value_counts (column_cells df ''y''))"
    by (simp only: a b)
  then show ?thesis
    by (simp only: set_fst_value_counts)
qed

lemma sort_index_Inr_iff:
  "(\<exists>t. sort_index P = Inr t)
     = ((\<forall>k\<in>set (map fst P). is_Str k) \<or> (\<forall>k\<in>set (map fst P). is_Num k))"
  by (auto simp add: sort_index_def list_all_iff split_def)

lemma target_perc_sub:
  assumes "columns B = columns D" and "set (rows B) \<subseteq> set (rows D)"
    and "target_perc D = Inr t"
  shows "\<exists>P t'. value_counts_perc B = Inr P \<and> sort_index P = Inr t'"
proof -
  from assms(3) obtain PD where y: "''y'' \<in> set (columns D)"
    and PD: "value_counts_perc D = Inr PD" and sD: "sort_index PD = Inr t"
    by (auto simp add: target_perc_def pipe_def value_counts_perc_def split: sum.splits if_splits)
  let ?kD = "{c \<in> set (column_cells D ''y''). \<not> is_NaN c}"
  let ?kB = "{c \<in> set (column_cells B ''y''). \<not> is_NaN c}"
  have sub: "?kB \<subseteq> ?kD"
    using assms(1,2) by (auto simp add: column_cells_def)
  have kD: "set (map fst PD) = ?kD"
    using PD by (rule keys_value_counts_perc)
  obtain PB where PB: "value_counts_perc B = Inr PB"
    using y assms(1) by (simp add: value_counts_perc_def)
  have kB: "set (map fst PB) = ?kB"
    using PB by (rule keys_value_counts_perc)
  have "(\<forall>k\<in>set (map fst PD). is_Str k) \<or> (\<forall>k\<in>set (map fst PD). is_Num k)"
    using sD sort_index_Inr_iff [of PD] by blast
  then have "(\<forall>k\<in>set (map fst PB). is_Str k) \<or> (\<forall>k\<in>set (map fst PB). is_Num k)"
    unfolding kD kB using sub by blast
  then obtain t' where "sort_index PB = Inr t'"
    using sort_index_Inr_iff [of PB] by blast
  with PB show ?thesis by blast
qed

lemma value_counts_perc_error:
  "value_counts_perc df = Inl e \<Longrightarrow> e = AttributeError ''y''"
  by (simp add: value_counts_perc_def split: if_splits)



lemma main_run_fst:
  "fst (main_run sample bank_raw fs c)
     = (case fst (apply_filters_cached sample bank_raw fs c) of
          Inl e \<Rightarrow> (Some e, initial_state)
        | Inr bank \<Rightarrow>
            proportion_section bank_raw bank
              (emit (Download_filtered ''bank_filtered.xlsx'') initial_state))"
  by (simp add: main_run_def split: prod.splits sum.splits)



text \<open>
  On a loaded DataFrame of fewer than 50000 rows no run shows the message: the filtered
  rows are rows of the loaded DataFrame, so the statements of the try block raise only
  what the statements before it, which no handler surrounds, have raised already.
\<close>

lemma main_run_small_never_reports:
  assumes "cache_ok sample c" and "length (body D) < PANDAS_ROWS_LARGE"
  shows "St_error m \<notin> set (ui (snd (fst (main_run sample D fs c))))"
proof (cases "apply_filters D fs")
  case (Inl e)
  then show ?thesis
    by (simp add: main_run_fst apply_filters_cached_small [OF assms] initial_state_def)
next
  case (Inr B)
  note sub = apply_filters_sub [OF Inr]
  show ?thesis
  proof (cases "target_perc D")
    case (Inl e)
    then show ?thesis
      using Inr
      by (auto simp add: main_run_fst apply_filters_cached_small [OF assms] proportion_section_def
          seq_def raw_proportion_def target_perc_def pipe_def emit_def initial_state_def Let_def
          split: sum.splits)
  next
    case (Inr t)
    from target_perc_sub [OF _ _ Inr, of B] sub
    obtain P t' where P: "value_counts_perc B = Inr P" and t': "sort_index P = Inr t'"
      by blast
    from Inr obtain PD where PD: "value_counts_perc D = Inr PD" and sD: "sort_index PD = Inr t"
      by (auto simp add: target_perc_def pipe_def split: sum.splits)
    show ?thesis
      using \<open>apply_filters D fs = Inr B\<close>
      by (simp add: main_run_fst apply_filters_cached_small [OF assms] proportion_section_def
          seq_def raw_proportion_def PD sD filtered_proportion_def P t' show_raw_def
          show_filtered_def emit_def initial_state_def)
  qed
qed

text \<open>
  Without the target column the run ends at the first statement of the section, outside
  the try block, and shows no message.
\<close>

lemma main_run_no_target:
  assumes "''y'' \<notin> set (columns bank_raw)"
    and "apply_filters_cached sample bank_raw fs c = (Inr bank, c')"
  shows "main_run sample bank_raw fs c
           = ((Some (AttributeError ''y''),
               emit (Download_filtered ''bank_filtered.xlsx'') initial_state), c')"
  using assms
  by (simp add: main_run_def proportion_section_def seq_def raw_proportion_def
      value_counts_perc_def)

subsection \<open>The proportion tables of the frames of 50000 rows\<close>







lemma f64_seven_tenths: "f64 (f64 (7 / 10) * 100) = 70"
  by code_simp

lemma f64_three_tenths: "f64 (f64 (3 / 10) * 100) = 30"
  by code_simp



lemma f64_third: "f64 (f64 (1 / 3) * 100) = 2345624805922133 / 2 ^ 46"
  by code_simp






lemma target_perc_ten_targets: "target_perc ten_targets = Inr [(Str ''no'', 70), (Str ''yes'', 30)]"
  by (simp add: target_perc_def value_counts_perc_def ten_targets_def column_cells_def rows_def
      get_cell_def value_counts_def first_seen_def normalize_def sort_index_def
      f64_seven_tenths f64_three_tenths less_eq_char_def less_char_def)

text \<open>
  Three targets that differ: each entry is the float64 nearest to a third, times 100, and
  the three entries sum to less than 100.
\<close>

lemma target_perc_three_targets:
  "map_sum id (\<lambda>t. (t, sum_list (map snd t))) (target_perc three_targets)
     = Inr ([(Str ''a'', 2345624805922133 / 2 ^ 46), (Str ''b'', 2345624805922133 / 2 ^ 46),
             (Str ''c'', 2345624805922133 / 2 ^ 46)], 100 - 1 / 2 ^ 46)"
  by (simp add: target_perc_def value_counts_perc_def three_targets_def column_cells_def rows_def
      get_cell_def value_counts_def first_seen_def normalize_def sort_index_def f64_third
      less_eq_char_def less_char_def)


section \<open>Claims about the categorical filter\<close>







text \<open>
  C9. The empty selection on a column of the DataFrame returns a DataFrame with the
  same columns and no rows; the result is an ordinary value, not an exception.
\<close>

theorem multiselect_filter_empty_selection:
  assumes "col \<in> set (columns D)"
  shows "multiselect_filter D col [] = Inr \<lparr>columns = columns D, body = []\<rparr>"
proof -
  have "multiselect_filter D col [] = Inr (reset_index (D\<lparr>body := []\<rparr>))"
    using assms by (simp add: multiselect_filter_eq)
  moreover have "reset_index (D\<lparr>body := []\<rparr>) = \<lparr>columns = columns D, body = []\<rparr>"
    by (cases D) (simp add: reset_index_def)
  ultimately show ?thesis by simp
qed

theorem multiselect_filter_empty_selection_witness:
  "multiselect_filter example_df ''job'' [] = Inr \<lparr>columns = columns example_df, body = []\<rparr>"
  using multiselect_filter_empty_selection [of "''job''" example_df]
  by (simp add: example_df_def)

text \<open>
  The same through the cache, for a DataFrame of any size: a stored result for the empty
  selection has no rows and the columns of the key, which are those of D.
\<close>

lemma multiselect_filter_cached_empty_selection:
  assumes "cache_ok sample c" and "col \<in> set (columns D)"
  shows "fst (multiselect_filter_cached sample D col [] c) = Inr \<lparr>columns = columns D, body = []\<rparr>"
proof (cases "map_of c (hash_df sample D, col, [])")
  case None
  then show ?thesis
    using assms(2) by (simp add: cached_miss_fst multiselect_filter_empty_selection_body)
next
  case (Some r)
  from cache_ok_hit [OF assms(1) Some]
  obtain d where d: "hash_df sample d = hash_df sample D" and r: "multiselect_filter d col [] = Inr r"
    by blast
  have cd: "columns d = columns D"
    using d by (rule hash_df_columns)
  then have "col \<in> set (columns d)"
    using assms(2) by simp
  then have "multiselect_filter d col [] = Inr \<lparr>columns = columns d, body = []\<rparr>"
    by (rule multiselect_filter_empty_selection_body)
  with r cd Some show ?thesis
    by (simp add: cached_hit)
qed

section \<open>Claims about the pipeline\<close>

text \<open>
  C2. On a DataFrame with a column age whose cells are numbers or missing, the range
  query returns the DataFrame whose rows are exactly the rows with an age a such that
  lo \<le> a \<le> hi, both bounds included: each row of the result satisfies the bound, and each
  row of the input that satisfies it is in the result.
\<close>

theorem query_age_inclusive:
  assumes "''age'' \<in> set (columns D)"
    and "\<forall>c\<in>set (column_cells D ''age''). \<not> is_Str c"
  shows "\<exists>R. query_age D lo hi = Inr R
           \<and> columns R = columns D
           \<and> rows R = filter (\<lambda>r. \<exists>a. get_cell (columns D) r ''age'' = Num a
                                  \<and> of_int lo \<le> a \<and> a \<le> of_int hi) (rows D)"
  using assms
  by (simp add: query_age_eq rows_body_filter age_between_iff)

theorem query_age_inclusive_witness:
  "map_sum id (\<lambda>R. map (\<lambda>r. get_cell (columns R) r ''age'') (rows R))
     (query_age example_df 30 40) = Inr [Num 30, Num 35, Num 40]"
proof -
  have h1: "''age'' \<in> set (columns example_df)"
    by (simp add: example_df_def)
  have h2: "\<forall>c\<in>set (column_cells example_df ''age''). \<not> is_Str c"
    by (simp add: example_df_def column_cells_def rows_def get_cell_def)
  from query_age_inclusive [OF h1 h2, of 30 40]
  obtain R where r: "query_age example_df 30 40 = Inr R"
    and c: "columns R = columns example_df"
    and rs: "rows R = filter (\<lambda>r. \<exists>a. get_cell (columns example_df) r ''age'' = Num a
                               \<and> of_int 30 \<le> a \<and> a \<le> of_int 40) (rows example_df)"
    by blast
  have "map (\<lambda>r. get_cell (columns R) r ''age'') (rows R) = [Num 30, Num 35, Num 40]"
    unfolding rs c by (simp add: example_df_def rows_def get_cell_def)
  then show ?thesis unfolding r by simp
qed







section \<open>Claims about the proportion summarizer\<close>

text \<open>
  C4, as stated: for every non-empty Dataset whose target column y is present and not
  empty, the summarizer produces the table. It does not when y holds values of two kinds,
  as a column read from a spreadsheet can: sort_index compares a string with a number and
  raises TypeError.
\<close>

theorem target_perc_counterexample:
  "columns mixed_targets = [''y'']
   \<and> column_cells mixed_targets ''y'' = [Str ''yes'', Num 1]
   \<and> target_perc mixed_targets = Inl TypeError"
  by (simp add: mixed_targets_def column_cells_def rows_def get_cell_def target_perc_def
      value_counts_perc_def value_counts_def first_seen_def normalize_def sort_index_def)

text \<open>
  C4, amended. For a DataFrame with a column y that holds at least one value that is not
  missing, all of whose values are strings or all numbers, the proportion table is computed
  without an exception; it has exactly one entry for each distinct value of y; the entry of
  a value is the float64 quotient of its count by the number of values, times 100 in
  float64, and lies between 0 and 100; the entries are in ascending order of the target
  value; and the sum of the entries differs from 100 by at most \<open>2\<^sup>-\<^sup>4\<^sup>5\<close>.
\<close>

theorem target_perc_summary:
  assumes "''y'' \<in> set (columns D)"
    and "\<exists>c\<in>set (column_cells D ''y''). \<not> is_NaN c"
    and "(\<forall>c\<in>set (column_cells D ''y''). is_Str c \<or> is_NaN c)
         \<or> (\<forall>c\<in>set (column_cells D ''y''). is_Num c \<or> is_NaN c)"
  shows "\<exists>t. target_perc D = Inr t
           \<and> distinct (map fst t)
           \<and> set (map fst t) = {c \<in> set (column_cells D ''y''). \<not> is_NaN c}
           \<and> (\<forall>(k, p)\<in>set t.
                 p = f64 (f64 (of_nat (count_list (column_cells D ''y'') k)
                     / of_nat (length (filter (\<lambda>c. \<not> is_NaN c) (column_cells D ''y'')))) * 100)
                 \<and> 0 \<le> p \<and> p \<le> 100)
           \<and> sorted_wrt cell_less (map fst t)
           \<and> \<bar>sum_list (map snd t) - 100\<bar> \<le> 1 / 2 ^ 45"
proof -
  let ?cs = "column_cells D ''y''"
  let ?vs = "filter (\<lambda>c. \<not> is_NaN c) ?cs"
  let ?N = "length ?vs"
  let ?VC = "value_counts ?cs"
  let ?P = "map (\<lambda>(k, n). (k, f64 (f64 (of_nat n / of_nat ?N) * 100))) ?VC"
  have N: "0 < ?N"
    using assms(2) by (simp add: filter_empty_conv)
  have vp: "value_counts_perc D = Inr ?P"
    using assms(1) by (rule value_counts_perc_eq)
  have fstP: "map fst ?P = map fst ?VC"
    by (simp add: split_def comp_def)
  have keys: "mset (map fst ?P) = mset (first_seen ?vs)"
    by (simp only: fstP map_fst_value_counts)
  have setP: "set (map fst ?P) = set ?vs"
    by (simp only: mset_eq_setD [OF keys] set_first_seen)
  have dP: "distinct (map fst ?P)"
    by (simp only: mset_eq_imp_distinct_iff [OF keys] distinct_first_seen)
  have kinds: "(\<forall>k\<in>set (map fst ?P). is_Str k) \<or> (\<forall>k\<in>set (map fst ?P). is_Num k)"
    using assms(3) unfolding setP by auto
  from sort_index_sorted [OF kinds dP]
  obtain t where t: "sort_index ?P = Inr t" and m: "mset t = mset ?P"
    and srt: "sorted_wrt cell_less (map fst t)"
    by blast
  have run: "target_perc D = Inr t"
    by (simp only: target_perc_def vp pipe_Inr t)
  have mf: "mset (map fst t) = mset (map fst ?P)"
    by (simp only: mset_map m)
  have d: "distinct (map fst t)"
    by (simp only: mset_eq_imp_distinct_iff [OF mf] dP)
  have s: "set (map fst t) = {c \<in> set ?cs. \<not> is_NaN c}"
    by (simp only: mset_eq_setD [OF mf] setP set_filter)
  have st: "set t = set ?P"
    using m by (rule mset_eq_setD)
  have entries: "p = f64 (f64 (of_nat (count_list ?cs k) / of_nat ?N) * 100) \<and> 0 \<le> p \<and> p \<le> 100"
    if "(k, p) \<in> set t" for k p
  proof -
    from that st obtain n where n: "(k, n) \<in> set ?VC"
      and p: "p = f64 (f64 (of_nat n / of_nat ?N) * 100)"
      by auto
    from in_value_counts [OF n] have nc: "n = count_list ?cs k"
      by simp
    from value_counts_pos [OF n] have "0 < n" and "n \<le> ?N"
      by simp_all
    from f64_percent_bounds [OF this] have "0 \<le> p" and "p \<le> 100"
      unfolding p by simp_all
    then show ?thesis
      using p nc by simp
  qed
  have bounds: "\<forall>(k, n)\<in>set ?VC. 0 < n \<and> n \<le> ?N"
    using value_counts_pos by blast
  have "sum_list (map (\<lambda>(k, n). of_nat n / of_nat ?N * (100::rat)) ?VC)
          = of_nat (sum_list (map snd ?VC)) / of_nat ?N * 100"
    by (rule sum_list_scaled)
  also have "\<dots> = 100"
    using N by (simp add: sum_snd_value_counts)
  finally have exact: "sum_list (map (\<lambda>(k, n). of_nat n / of_nat ?N * (100::rat)) ?VC) = 100" .
  have "mset (map snd t) = mset (map snd ?P)"
    by (simp only: mset_map m)
  then have "sum_list (map snd t) = sum_list (map snd ?P)"
    by (rule sum_list_mset_cong)
  also have "map snd ?P = map (\<lambda>(k, n). f64 (f64 (of_nat n / of_nat ?N) * 100)) ?VC"
    by (simp add: split_def comp_def)
  finally have "\<bar>sum_list (map snd t) - 100\<bar> \<le> 100 * (2 / 2 ^ 53 + 1 / 2 ^ 106)"
    using sum_list_percent_error [OF bounds] by (simp only: exact)
  also have "\<dots> \<le> 1 / 2 ^ 45"
    by simp
  finally have total: "\<bar>sum_list (map snd t) - 100\<bar> \<le> 1 / 2 ^ 45" .
  from run d s entries srt total show ?thesis
    by (intro exI [of _ t] conjI ballI) auto
qed

theorem target_perc_summary_witness:
  "map_sum id (\<lambda>t. (t, \<bar>sum_list (map snd t) - 100\<bar> \<le> 1 / 2 ^ 45)) (target_perc ten_targets)
     = Inr ([(Str ''no'', 70), (Str ''yes'', 30)], True)"
proof -
  have cs: "column_cells ten_targets ''y''
              = [Str ''no'', Str ''yes'', Str ''no'', Str ''no'', Str ''yes'', Str ''no'',
                 Str ''no'', Str ''yes'', Str ''no'', Str ''no'']"
    by (simp add: ten_targets_def column_cells_def rows_def get_cell_def)
  have h1: "''y'' \<in> set (columns ten_targets)"
    by (simp add: ten_targets_def)
  have h2: "\<exists>c\<in>set (column_cells ten_targets ''y''). \<not> is_NaN c"
    unfolding cs by simp
  have h3: "(\<forall>c\<in>set (column_cells ten_targets ''y''). is_Str c \<or> is_NaN c)
         \<or> (\<forall>c\<in>set (column_cells ten_targets ''y''). is_Num c \<or> is_NaN c)"
    unfolding cs by simp
  from target_perc_summary [OF h1 h2 h3] target_perc_ten_targets
  have "\<bar>sum_list (map snd [(Str ''no'', 70 :: rat), (Str ''yes'', 30)]) - 100\<bar> \<le> 1 / 2 ^ 45"
    by auto
  with target_perc_ten_targets show ?thesis by simp
qed

section \<open>Claims about the loader\<close>

text \<open>
  C6. load_data calls read_csv with separator ';' first and returns its DataFrame when
  it succeeds. When read_csv raises an Exception, load_data calls read_excel next and
  returns what read_excel returns; when that raises too, the exception of read_excel is
  what load_data raises, unchanged.
\<close>

theorem load_data_fallback:
  "(read_csv file_data CHR '';'' = Inr df \<longrightarrow>
      load_data read_csv read_excel file_data = (Inr df, [Read_csv CHR '';'']))
   \<and> (read_csv file_data CHR '';'' = Inl e \<and> is_Exception e \<longrightarrow>
      load_data read_csv read_excel file_data
        = (read_excel file_data, [Read_csv CHR '';'', Read_excel]))
   \<and> (read_csv file_data CHR '';'' = Inl e \<and> is_Exception e \<and> read_excel file_data = Inl e' \<longrightarrow>
      load_data read_csv read_excel file_data = (Inl e', [Read_csv CHR '';'', Read_excel]))"
  by (simp add: load_data_def)

theorem load_data_fallback_witness:
  "load_data toy_read_csv toy_read_excel (''age;y'' @ [CHR 0x0A] @ ''25;no'')
     = (Inr toy_frame, [Read_csv CHR '';''])
   \<and> load_data toy_read_csv toy_read_excel ''PK-workbook''
     = (Inr toy_frame, [Read_csv CHR '';'', Read_excel])
   \<and> load_data toy_read_csv toy_read_excel ''garbage''
     = (Inl (ValueError ''Excel file format cannot be determined''), [Read_csv CHR '';'', Read_excel])"
proof -
  have csv: "toy_read_csv (''age;y'' @ [CHR 0x0A] @ ''25;no'') CHR '';'' = Inr toy_frame"
    by (simp add: toy_read_csv_def)
  have bad1: "toy_read_csv ''PK-workbook'' CHR '';'' = Inl (ParserError ''Error tokenizing data'')"
    by (simp add: toy_read_csv_def)
  have bad2: "toy_read_csv ''garbage'' CHR '';'' = Inl (ParserError ''Error tokenizing data'')"
    by (simp add: toy_read_csv_def)
  have exc: "is_Exception (ParserError ''Error tokenizing data'')"
    by simp
  have xl1: "toy_read_excel ''PK-workbook'' = Inr toy_frame"
    by (simp add: toy_read_excel_def)
  have xl2: "toy_read_excel ''garbage'' = Inl (ValueError ''Excel file format cannot be determined'')"
    by (simp add: toy_read_excel_def)
  have a: "load_data toy_read_csv toy_read_excel (''age;y'' @ [CHR 0x0A] @ ''25;no'')
             = (Inr toy_frame, [Read_csv CHR '';''])"
    using load_data_fallback [of toy_read_csv "''age;y'' @ [CHR 0x0A] @ ''25;no''" toy_frame toy_read_excel]
      csv by blast
  have b: "load_data toy_read_csv toy_read_excel ''PK-workbook''
             = (toy_read_excel ''PK-workbook'', [Read_csv CHR '';'', Read_excel])"
    using load_data_fallback [of toy_read_csv "''PK-workbook''" _ toy_read_excel "ParserError ''Error tokenizing data''"]
      bad1 exc by blast
  have c: "load_data toy_read_csv toy_read_excel ''garbage''
             = (Inl (ValueError ''Excel file format cannot be determined''), [Read_csv CHR '';'', Read_excel])"
    using load_data_fallback [of toy_read_csv "''garbage''" _ toy_read_excel "ParserError ''Error tokenizing data''"
        "ValueError ''Excel file format cannot be determined''"]
      bad2 exc xl2 by blast
  from a b c show ?thesis by (simp only: xl1 simp_thms)
qed

section \<open>Claims about the proportion section\<close>




section \<open>Claims about the raw DataFrame\<close>

lemma extends_refl: "extends s s"
  by (simp add: extends_def)

lemma extends_trans: "extends s1 s2 \<Longrightarrow> extends s2 s3 \<Longrightarrow> extends s1 s3"
  by (auto simp add: extends_def)

lemma alloc_extends:
  assumes "alloc d s = (a, s')"
  shows "extends s s' \<and> a = next_ref s \<and> next_ref s' = Suc (next_ref s) \<and> objs s' a = d"
  using assms by (auto simp add: alloc_def extends_def)

lemma new_object_tracks:
  assumes "extends s0 s" and "n0 \<le> next_ref s"
  shows "tracks n0 s0 v (new_object v s)"
proof (cases v)
  case (Inl e)
  then show ?thesis
    using assms by (simp add: tracks_def new_object_def)
next
  case (Inr d)
  obtain a s' where a: "alloc d s = (a, s')"
    by (cases "alloc d s")
  from alloc_extends [OF a] have "extends s s'" and "a = next_ref s"
    and "next_ref s' = Suc (next_ref s)" and "objs s' a = d"
    by auto
  then show ?thesis
    using assms Inr a extends_trans [of s0 s s'] by (simp add: tracks_def new_object_def)
qed

lemma multiselect_filter_ref_tracks:
  assumes "tracks n0 s0 v r"
  shows "tracks n0 s0 (pipe v (\<lambda>d. multiselect_filter d c sel))
           (pipe_ref r (\<lambda>d. multiselect_filter_ref d c sel))"
proof -
  obtain x s where r: "r = (x, s)"
    by (cases r)
  show ?thesis
  proof (cases x)
    case (Inl e)
    then show ?thesis
      using assms r by (auto simp add: tracks_def pipe_ref_def)
  next
    case (Inr a)
    from assms r Inr have ext: "extends s0 s" and v: "v = Inr (objs s a)"
      and lo: "n0 \<le> a" and hi: "a < next_ref s"
      by (auto simp add: tracks_def)
    show ?thesis
    proof (cases "Str ''all'' \<in> set sel")
      case True
      then show ?thesis
        using assms r Inr v
        by (simp add: tracks_def pipe_ref_def multiselect_filter_ref_def multiselect_filter_def)
    next
      case False
      show ?thesis
      proof (cases "isin (objs s a) c sel")
        case (Inl e)
        then show ?thesis
          using False r Inr v ext
          by (simp add: tracks_def pipe_ref_def multiselect_filter_ref_def multiselect_filter_def)
      next
        case (Inr msk)
        let ?s1 = "\<lparr>objs = (objs s)(next_ref s := select_rows (objs s a) msk),
                     next_ref = Suc (next_ref s)\<rparr>"
        let ?s2 = "\<lparr>objs = (objs ?s1)(Suc (next_ref s) := reset_index (select_rows (objs s a) msk)),
                     next_ref = Suc (Suc (next_ref s))\<rparr>"
        have run: "multiselect_filter_ref a c sel s = (Inr (Suc (next_ref s)), ?s2)"
          using False Inr by (simp add: multiselect_filter_ref_def alloc_def)
        have "extends s ?s2"
          by (simp add: extends_def)
        with ext have "extends s0 ?s2"
          by (rule extends_trans)
        moreover have "n0 \<le> Suc (next_ref s)"
          using lo hi by simp
        ultimately show ?thesis
          using False Inr v r \<open>x = Inr a\<close> run
          by (simp add: tracks_def pipe_ref_def multiselect_filter_def)
      qed
    qed
  qed
qed

lemma run_filters_tracks:
  "tracks (next_ref s) s (apply_filters (objs s bank_raw) fs) (run_filters bank_raw fs s)"
proof -
  let ?s0 = "\<lparr>objs = (objs s)(next_ref s := objs s bank_raw), next_ref = Suc (next_ref s)\<rparr>"
  have c: "copy_ref bank_raw s = (next_ref s, ?s0)"
    by (simp add: copy_ref_def alloc_def)
  have e: "extends s ?s0"
    by (simp add: extends_def)
  have "tracks (next_ref s) s (query_age (objs ?s0 (next_ref s)) (fst (idades fs)) (snd (idades fs)))
          (query_age_ref (next_ref s) (fst (idades fs)) (snd (idades fs)) ?s0)"
    unfolding query_age_ref_def using e by (rule new_object_tracks) simp
  then have q: "tracks (next_ref s) s (query_age (objs s bank_raw) (fst (idades fs)) (snd (idades fs)))
          (query_age_ref (next_ref s) (fst (idades fs)) (snd (idades fs)) ?s0)"
    by simp
  show ?thesis
    unfolding run_filters_def apply_filters_def c Let_def prod.case
    by (intro multiselect_filter_ref_tracks q)
qed

text \<open>
  C10. Running the pipeline on the reference of the raw DataFrame, in any store and
  for any Filter Selection, whether it returns or raises: every object that existed
  before is unchanged, so the raw DataFrame and its proportion table are what they were;
  the reference returned is not that of the raw DataFrame, and it holds the DataFrame
  that the pipeline computes from the raw value.
\<close>

theorem run_filters_frame:
  assumes "bank_raw < next_ref s"
    and "run_filters bank_raw fs s = (r, s')"
  shows "objs s' bank_raw = objs s bank_raw
         \<and> target_perc (objs s' bank_raw) = target_perc (objs s bank_raw)
         \<and> (\<forall>a<next_ref s. objs s' a = objs s a)
         \<and> (\<forall>b. r = Inr b \<longrightarrow> b \<noteq> bank_raw)
         \<and> map_sum id (objs s') r = apply_filters (objs s bank_raw) fs"
proof -
  have t: "tracks (next_ref s) s (apply_filters (objs s bank_raw) fs) (r, s')"
    using run_filters_tracks [of s bank_raw fs] assms(2) by simp
  then have ext: "extends s s'"
    and val: "map_sum id (objs s') r = apply_filters (objs s bank_raw) fs"
    by (simp_all add: tracks_def)
  from ext have frame: "\<forall>a<next_ref s. objs s' a = objs s a"
    by (simp add: extends_def)
  with assms(1) have raw: "objs s' bank_raw = objs s bank_raw"
    by simp
  have fresh: "b \<noteq> bank_raw" if "r = Inr b" for b
    using t that assms(1) by (auto simp add: tracks_def)
  from raw frame fresh val show ?thesis
    by simp
qed

theorem run_filters_frame_witness:
  "objs (snd (run_filters 0 (select_all\<lparr>jobs_selected := [Str ''admin'']\<rparr>) one_object)) 0 = example_df
   \<and> fst (run_filters 0 (select_all\<lparr>jobs_selected := [Str ''admin'']\<rparr>) one_object) = Inr 4"
proof -
  let ?fs = "select_all\<lparr>jobs_selected := [Str ''admin'']\<rparr>"
  have h1: "0 < next_ref one_object"
    by (simp add: one_object_def)
  have h2: "run_filters 0 ?fs one_object
              = (fst (run_filters 0 ?fs one_object), snd (run_filters 0 ?fs one_object))"
    by simp
  from run_filters_frame [OF h1 h2]
  have "objs (snd (run_filters 0 ?fs one_object)) 0 = objs one_object 0"
    by simp
  then have a: "objs (snd (run_filters 0 ?fs one_object)) 0 = example_df"
    by (simp add: one_object_def)
  have b: "fst (run_filters 0 ?fs one_object) = Inr 4"
    by (simp add: run_filters_def copy_ref_def alloc_def query_age_ref_def new_object_def
        pipe_ref_def multiselect_filter_ref_def one_object_def select_all_def example_df_def
        query_age_def column_cells_def rows_def get_cell_def select_rows_def isin_def)
  from a b show ?thesis by simp
qed

end

